theory Spec2Isabelle
  imports Main "HOL-Library.Sublist" "HOL-Library.Word"
begin

section \<open>Values shared by the whole server\<close>

text \<open>
  The server is one JavaScript module, \<^verbatim>\<open>server.js\<close>. Strings are modelled as
  \<^typ>\<open>string\<close>; host names, request paths and textual IP addresses are ASCII.
  A thrown JavaScript exception (or a rejected promise) is a value of type \<open>error\<close>, and a
  function that can throw returns \<open>error + 'a\<close> with \<open>Inl\<close> for the exception.
  \<open>Error m\<close> is an \<^verbatim>\<open>Error\<close> object with message \<open>m\<close>; \<open>SyntaxError\<close> is what the
  \<^verbatim>\<open>RegExp\<close> constructor throws on a pattern it cannot parse; \<open>URIError\<close> is what
  \<^verbatim>\<open>decodeURIComponent\<close> throws on a malformed escape sequence.
\<close>

datatype error = Error string | SyntaxError | URIError

definition backslash :: char where
  "backslash = CHR 0x5C"

definition lower_char :: "char \<Rightarrow> char" where
  "lower_char c =
     (let n = (of_char c :: nat) in if 65 \<le> n \<and> n \<le> 90 then char_of (n + 32) else c)"

definition toLowerCase :: "string \<Rightarrow> string" where
  "toLowerCase s = map lower_char s"

text \<open>\<^verbatim>\<open>s.startsWith(p)\<close> is \<^term>\<open>prefix p s\<close>.\<close>

definition startsWith :: "string \<Rightarrow> string \<Rightarrow> bool" where
  "startsWith s p = prefix p s"

text \<open>
  \<^verbatim>\<open>s.replace(pat, rep)\<close> with a string pattern replaces the first occurrence only
  (\<open>rep\<close> holds no \<^verbatim>\<open>$\<close> in this program, so it is taken literally).
\<close>

fun replace_first :: "string \<Rightarrow> string \<Rightarrow> string \<Rightarrow> string" where
  "replace_first pat rep [] = (if pat = [] then rep else [])"
| "replace_first pat rep (c # cs) =
     (if prefix pat (c # cs) then rep @ drop (length pat) (c # cs)
      else c # replace_first pat rep cs)"


section \<open>Regular expressions built by \<open>wildcardMatch\<close>\<close>

text \<open>
  \<^verbatim>\<open>new RegExp(src, "i")\<close> for the sources this program builds. The escaping step of
  \<open>wildcardMatch\<close> puts a backslash before each of \<^verbatim>\<open>. + ? ^ $ { } ( ) | [ ]\<close> and
  before a backslash, so in such a source these characters occur escaped only
  (\<^verbatim>\<open>^\<close> and \<^verbatim>\<open>$\<close> also as the anchors added around it), and the one
  syntax character that can stand unescaped is
  \<^verbatim>\<open>*\<close>. The tokens are: the two anchors, an atom (a literal character, an escaped
  character, or the dot), the star quantifier, and a backslash that ends the source.
\<close>

datatype atom = Lit char | AnyChar

datatype token = TStart | TEnd | TAtom atom | TStar | TBackslashEnd

fun tokens :: "string \<Rightarrow> token list" where
  "tokens [] = []"
| "tokens [c] =
     (if c = backslash then [TBackslashEnd]
      else if c = CHR ''*'' then [TStar]
      else if c = CHR ''^'' then [TStart]
      else if c = CHR ''$'' then [TEnd]
      else if c = CHR ''.'' then [TAtom AnyChar]
      else [TAtom (Lit c)])"
| "tokens (c # d # cs) =
     (if c = backslash then TAtom (Lit d) # tokens cs
      else if c = CHR ''*'' then TStar # tokens (d # cs)
      else if c = CHR ''^'' then TStart # tokens (d # cs)
      else if c = CHR ''$'' then TEnd # tokens (d # cs)
      else if c = CHR ''.'' then TAtom AnyChar # tokens (d # cs)
      else TAtom (Lit c) # tokens (d # cs))"

datatype rterm = AssertStart | AssertEnd | One atom | Star atom

definition cons_ok :: "'a \<Rightarrow> error + 'a list \<Rightarrow> error + 'a list" where
  "cons_ok x r = (case r of Inl e \<Rightarrow> Inl e | Inr xs \<Rightarrow> Inr (x # xs))"

text \<open>
  A quantifier needs an atom before it: \<^verbatim>\<open>*\<close> at the start of the source, after an
  anchor or after another quantifier is the engine's ``nothing to repeat''
  \<^verbatim>\<open>SyntaxError\<close>.
\<close>

fun parse_terms :: "token list \<Rightarrow> error + rterm list" where
  "parse_terms [] = Inr []"
| "parse_terms (TStar # ts) = Inl SyntaxError"
| "parse_terms (TBackslashEnd # ts) = Inl SyntaxError"
| "parse_terms (TStart # ts) = cons_ok AssertStart (parse_terms ts)"
| "parse_terms (TEnd # ts) = cons_ok AssertEnd (parse_terms ts)"
| "parse_terms (TAtom a # TStar # ts) = cons_ok (Star a) (parse_terms ts)"
| "parse_terms (TAtom a # ts) = cons_ok (One a) (parse_terms ts)"

definition RegExp :: "string \<Rightarrow> error + rterm list" where
  "RegExp src = parse_terms (tokens src)"

text \<open>
  Matching with the \<^verbatim>\<open>i\<close> flag compares characters up to letter case; the dot
  matches every character but a line terminator.
\<close>

fun atom_ok :: "atom \<Rightarrow> char \<Rightarrow> bool" where
  "atom_ok (Lit c) x = (lower_char c = lower_char x)"
| "atom_ok AnyChar x = (x \<noteq> CHR 0x0A \<and> x \<noteq> CHR 0x0D)"

text \<open>
  \<open>match_here r pos s\<close>: the terms \<open>r\<close> match a prefix of \<open>s\<close>, which starts at
  index \<open>pos\<close> of the subject.
\<close>

fun match_here :: "rterm list \<Rightarrow> nat \<Rightarrow> string \<Rightarrow> bool" where
  "match_here [] pos s = True"
| "match_here (AssertStart # r) pos s = (pos = 0 \<and> match_here r pos s)"
| "match_here (AssertEnd # r) pos s = (s = [] \<and> match_here r pos s)"
| "match_here (One a # r) pos [] = False"
| "match_here (One a # r) pos (c # cs) = (atom_ok a c \<and> match_here r (Suc pos) cs)"
| "match_here (Star a # r) pos [] = match_here r pos []"
| "match_here (Star a # r) pos (c # cs) =
     ((atom_ok a c \<and> match_here (Star a # r) (Suc pos) cs) \<or> match_here r pos (c # cs))"

text \<open>\<^verbatim>\<open>re.test(s)\<close>: a match may start at any index of \<open>s\<close>.\<close>

fun test_from :: "rterm list \<Rightarrow> nat \<Rightarrow> string \<Rightarrow> bool" where
  "test_from r pos [] = match_here r pos []"
| "test_from r pos (c # cs) = (match_here r pos (c # cs) \<or> test_from r (Suc pos) cs)"

definition test :: "rterm list \<Rightarrow> string \<Rightarrow> bool" where
  "test r s = test_from r 0 s"


section \<open>The allow-list: \<open>wildcardMatch\<close> and \<open>hostAllowed\<close>\<close>

definition is_meta :: "char \<Rightarrow> bool" where
  "is_meta c = (c \<in> set ''.+?^${}()|[]'' \<or> c = backslash)"

text \<open>\<^verbatim>\<open>pattern.replace(/[.+?^${}()|[\]\\]/g, "\\$&")\<close>\<close>

definition escape_meta :: "string \<Rightarrow> string" where
  "escape_meta pattern = concat (map (\<lambda>c. if is_meta c then [backslash, c] else [c]) pattern)"

definition wildcardMatch :: "string \<Rightarrow> string \<Rightarrow> error + bool" where
  "wildcardMatch host pattern =
     (if CHR ''*'' \<notin> set pattern then Inr (toLowerCase host = toLowerCase pattern)
      else
        let esc = replace_first [backslash, CHR ''*''] ''.*'' (escape_meta pattern) in
        case RegExp (''^'' @ esc @ ''$'') of
          Inl e \<Rightarrow> Inl e
        | Inr re \<Rightarrow> Inr (test re host))"

text \<open>\<^verbatim>\<open>ALLOW_HOSTS.some(p => wildcardMatch(host, p))\<close>, left to right.\<close>

fun some_wildcardMatch :: "string \<Rightarrow> string list \<Rightarrow> error + bool" where
  "some_wildcardMatch host [] = Inr False"
| "some_wildcardMatch host (p # ps) =
     (case wildcardMatch host p of
        Inl e \<Rightarrow> Inl e
      | Inr b \<Rightarrow> if b then Inr True else some_wildcardMatch host ps)"

definition hostAllowed :: "string list \<Rightarrow> string \<Rightarrow> error + bool" where
  "hostAllowed ALLOW_HOSTS host =
     (if length ALLOW_HOSTS = 0 then Inr True else some_wildcardMatch host ALLOW_HOSTS)"

text \<open>
  \<^verbatim>\<open>ALLOW_HOSTS\<close> is read from the environment: the value (or the empty string) is
  split at commas, each piece trimmed of white space, and the empty pieces dropped.
\<close>

fun split_on :: "char \<Rightarrow> string \<Rightarrow> string list" where
  "split_on sep [] = [[]]"
| "split_on sep (c # cs) =
     (if c = sep then [] # split_on sep cs
      else (case split_on sep cs of [] \<Rightarrow> [[c]] | p # ps \<Rightarrow> (c # p) # ps))"

definition is_space :: "char \<Rightarrow> bool" where
  "is_space c = (c \<in> set [CHR '' '', CHR 0x09, CHR 0x0A, CHR 0x0B, CHR 0x0C, CHR 0x0D])"

definition trim :: "string \<Rightarrow> string" where
  "trim s = rev (dropWhile is_space (rev (dropWhile is_space s)))"

definition ALLOW_HOSTS_of_env :: "string option \<Rightarrow> string list" where
  "ALLOW_HOSTS_of_env v =
     filter (\<lambda>s. s \<noteq> []) (map trim (split_on (CHR '','') (case v of None \<Rightarrow> [] | Some s \<Rightarrow> s)))"

text \<open>
  A regular-expression source is escaped throughout when, read from the left with a
  backslash taking the character after it, none of \<^verbatim>\<open>. + ? ^ $ { } ( ) | [ ]\<close> stands
  unescaped and no backslash stands last. The sources \<open>wildcardMatch\<close> builds are
  (\<open>escaped_throughout_replaced\<close>), which is why \<open>tokens\<close> needs no case for the
  characters it does not name.
\<close>

fun escaped_throughout :: "string \<Rightarrow> bool" where
  "escaped_throughout [] = True"
| "escaped_throughout [c] = (c \<noteq> backslash \<and> c \<notin> set ''.+?^${}()|[]'')"
| "escaped_throughout (c # d # cs) =
     (if c = backslash then escaped_throughout cs
      else c \<notin> set ''.+?^${}()|[]'' \<and> escaped_throughout (d # cs))"

text \<open>
  The wildcard as the specification words it, for comparison with \<open>wildcardMatch\<close>: the
  first \<^verbatim>\<open>*\<close> of the pattern stands for any character sequence, the rest of the
  pattern is matched literally, up to letter case.
\<close>

definition spec_wildcard :: "string \<Rightarrow> string \<Rightarrow> bool" where
  "spec_wildcard host pattern =
     (let before = takeWhile (\<lambda>c. c \<noteq> CHR ''*'') pattern;
          after = drop (Suc (length before)) pattern;
          h = toLowerCase host
      in length before + length after \<le> length h \<and>
         prefix (toLowerCase before) h \<and> suffix (toLowerCase after) h)"


section \<open>Resolved addresses and their text\<close>

text \<open>
  \<^verbatim>\<open>dns.lookup(host, {all: true}, cb)\<close> hands the callback the resolved addresses, each
  with its \<^verbatim>\<open>address\<close> as text in the platform's canonical form: dotted decimal for
  IPv4; for IPv6 the eight groups in lower-case hexadecimal without leading zeros,
  the longest run of two or more zero groups (the first one among equals) written
  \<^verbatim>\<open>::\<close>, and the last two groups in dotted decimal for the IPv4-compatible and
  IPv4-mapped forms. \<open>validateResolvablePublic\<close> looks at that text only. An address is
  four octets or eight 16-bit groups.
\<close>

datatype ipaddr =
    IPv4 "8 word" "8 word" "8 word" "8 word"
  | IPv6 "16 word" "16 word" "16 word" "16 word" "16 word" "16 word" "16 word" "16 word"

definition digit_char :: "nat \<Rightarrow> char" where
  "digit_char d = ''0123456789'' ! d"

definition dec_text :: "nat \<Rightarrow> string" where
  "dec_text n =
     (if n < 10 then [digit_char n]
      else if n < 100 then [digit_char (n div 10), digit_char (n mod 10)]
      else [digit_char (n div 100), digit_char (n div 10 mod 10), digit_char (n mod 10)])"

definition hex_char :: "nat \<Rightarrow> char" where
  "hex_char d = ''0123456789abcdef'' ! d"

definition hex_text :: "nat \<Rightarrow> string" where
  "hex_text n =
     (if n < 16 then [hex_char n]
      else if n < 256 then [hex_char (n div 16), hex_char (n mod 16)]
      else if n < 4096 then [hex_char (n div 256), hex_char (n div 16 mod 16), hex_char (n mod 16)]
      else [hex_char (n div 4096 mod 16), hex_char (n div 256 mod 16),
            hex_char (n div 16 mod 16), hex_char (n mod 16)])"

definition dotted :: "nat \<Rightarrow> nat \<Rightarrow> nat \<Rightarrow> nat \<Rightarrow> string" where
  "dotted a b c d = dec_text a @ ''.'' @ dec_text b @ ''.'' @ dec_text c @ ''.'' @ dec_text d"

text \<open>
  The scan for the run of zero groups to abbreviate: \<open>cur\<close> is the run being read,
  \<open>best\<close> the longest one closed so far, each as (first index, length).
\<close>

definition longer_run :: "(nat \<times> nat) option \<Rightarrow> (nat \<times> nat) option \<Rightarrow> (nat \<times> nat) option" where
  "longer_run cur best =
     (case cur of
        None \<Rightarrow> best
      | Some (cb, cl) \<Rightarrow>
          (case best of None \<Rightarrow> cur | Some (bb, bl) \<Rightarrow> if bl < cl then cur else best))"

fun scan_runs ::
  "16 word list \<Rightarrow> nat \<Rightarrow> (nat \<times> nat) option \<Rightarrow> (nat \<times> nat) option \<Rightarrow> (nat \<times> nat) option" where
  "scan_runs [] i cur best = longer_run cur best"
| "scan_runs (w # ws) i cur best =
     (if w = 0
      then scan_runs ws (Suc i) (case cur of None \<Rightarrow> Some (i, 1) | Some (cb, cl) \<Rightarrow> Some (cb, Suc cl)) best
      else scan_runs ws (Suc i) None (longer_run cur best))"

definition best_run :: "16 word list \<Rightarrow> (nat \<times> nat) option" where
  "best_run ws =
     (case scan_runs ws 0 None None of
        None \<Rightarrow> None
      | Some (b, l) \<Rightarrow> if l < 2 then None else Some (b, l))"

fun join_colon :: "string list \<Rightarrow> string" where
  "join_colon [] = []"
| "join_colon [x] = x"
| "join_colon (x # y # ys) = x @ '':'' @ join_colon (y # ys)"

definition hex_group :: "16 word \<Rightarrow> string" where
  "hex_group w = hex_text (unat w)"

definition groups_text :: "16 word list \<Rightarrow> string" where
  "groups_text ws =
     (case best_run ws of
        None \<Rightarrow> join_colon (map hex_group ws)
      | Some (b, l) \<Rightarrow>
          if b = 0 \<and> (l = 6 \<or> (l = 5 \<and> ws ! 5 = 0xFFFF))
          then ''::'' @ (if l = 5 then ''ffff:'' else []) @
               dotted (unat (ws ! 6) div 256) (unat (ws ! 6) mod 256)
                      (unat (ws ! 7) div 256) (unat (ws ! 7) mod 256)
          else join_colon (map hex_group (take b ws)) @ ''::'' @
               join_colon (map hex_group (drop (b + l) ws)))"

fun ip_text :: "ipaddr \<Rightarrow> string" where
  "ip_text (IPv4 a b c d) = dotted (unat a) (unat b) (unat c) (unat d)"
| "ip_text (IPv6 g0 g1 g2 g3 g4 g5 g6 g7) = groups_text [g0, g1, g2, g3, g4, g5, g6, g7]"


section \<open>The private-address guard: \<open>validateResolvablePublic\<close>\<close>

definition is_digit :: "char \<Rightarrow> bool" where
  "is_digit c = (c \<in> set ''0123456789'')"

text \<open>\<^verbatim>\<open>/^172\.(1[6-9]|2\d|3[0-1])\./.test(ip)\<close>\<close>

fun re_172 :: "string \<Rightarrow> bool" where
  "re_172 (c1 # c2 # c3 # c4 # c5 # c6 # c7 # rest) =
     (c1 = CHR ''1'' \<and> c2 = CHR ''7'' \<and> c3 = CHR ''2'' \<and> c4 = CHR ''.'' \<and>
      ((c5 = CHR ''1'' \<and> c6 \<in> set ''6789'') \<or>
       (c5 = CHR ''2'' \<and> is_digit c6) \<or>
       (c5 = CHR ''3'' \<and> c6 \<in> set ''01'')) \<and>
      c7 = CHR ''.'')"
| "re_172 ip = False"

definition isPrivate :: "string \<Rightarrow> bool" where
  "isPrivate ip =
     (startsWith ip ''10.'' \<or>
      startsWith ip ''192.168.'' \<or>
      re_172 ip \<or>
      ip = ''127.0.0.1'' \<or>
      ip = ''::1'' \<or>
      startsWith ip ''169.254.'' \<or>
      startsWith ip ''fe80:'')"

text \<open>
  The loop over the resolved addresses. \<open>isIP\<close> is Node's \<^verbatim>\<open>net.isIP\<close> (0 for a text
  that is no IP address, else 4 or 6), a parameter here.
\<close>

fun check_addrs :: "(string \<Rightarrow> nat) \<Rightarrow> string list \<Rightarrow> error + unit" where
  "check_addrs isIP [] = Inr ()"
| "check_addrs isIP (ip # rest) =
     (if isIP ip = 0 then check_addrs isIP rest
      else if isPrivate ip then Inl (Error ''private ip blocked'')
      else check_addrs isIP rest)"

text \<open>
  \<open>lookup host\<close> is the outcome of \<^verbatim>\<open>dns.lookup\<close> for \<open>host\<close>: the error it reports,
  or the address texts.
\<close>

definition validateResolvablePublic ::
  "bool \<Rightarrow> (string \<Rightarrow> error + string list) \<Rightarrow> (string \<Rightarrow> nat) \<Rightarrow> string \<Rightarrow> error + unit" where
  "validateResolvablePublic DENY_PRIVATE_IPS lookup isIP host =
     (if \<not> DENY_PRIVATE_IPS then Inr ()
      else case lookup host of
             Inl e \<Rightarrow> Inl e
           | Inr addrs \<Rightarrow> check_addrs isIP addrs)"

text \<open>
  The denylisted ranges as the specification lists them: 10.0.0.0/8, 172.16.0.0/12,
  192.168.0.0/16, 127.0.0.1, 169.254.0.0/16, \<^verbatim>\<open>::1\<close>, and fe80::/10, the addresses
  whose first group lies between \<^verbatim>\<open>fe80\<close> and \<^verbatim>\<open>febf\<close>.
\<close>

fun spec_denylisted :: "ipaddr \<Rightarrow> bool" where
  "spec_denylisted (IPv4 a b c d) =
     (a = 10 \<or> (a = 172 \<and> 16 \<le> b \<and> b \<le> 31) \<or> (a = 192 \<and> b = 168) \<or>
      (a = 127 \<and> b = 0 \<and> c = 0 \<and> d = 1) \<or> (a = 169 \<and> b = 254))"
| "spec_denylisted (IPv6 g0 g1 g2 g3 g4 g5 g6 g7) =
     ((g0 = 0 \<and> g1 = 0 \<and> g2 = 0 \<and> g3 = 0 \<and> g4 = 0 \<and> g5 = 0 \<and> g6 = 0 \<and> g7 = 1) \<or>
      (0xFE80 \<le> g0 \<and> g0 \<le> 0xFEBF))"

text \<open>The same ranges with fe80::/16 (first group \<^verbatim>\<open>fe80\<close>) in place of fe80::/10.\<close>

fun denylisted_fe80_16 :: "ipaddr \<Rightarrow> bool" where
  "denylisted_fe80_16 (IPv4 a b c d) = spec_denylisted (IPv4 a b c d)"
| "denylisted_fe80_16 (IPv6 g0 g1 g2 g3 g4 g5 g6 g7) =
     ((g0 = 0 \<and> g1 = 0 \<and> g2 = 0 \<and> g3 = 0 \<and> g4 = 0 \<and> g5 = 0 \<and> g6 = 0 \<and> g7 = 1) \<or>
      g0 = 0xFE80)"

text \<open>
  A resolver table and an address classifier to run the guard on: the classifier tells
  the two families apart by their separator, which is all the guard needs of
  \<^verbatim>\<open>net.isIP\<close> on the texts a resolver reports.
\<close>

definition family_by_separator :: "string \<Rightarrow> nat" where
  "family_by_separator ip =
     (if CHR '':'' \<in> set ip then 6 else if CHR ''.'' \<in> set ip then 4 else 0)"

definition example_dns :: "string \<Rightarrow> error + string list" where
  "example_dns host =
     (if host = ''blocked.internal'' then Inr [ip_text (IPv4 10 0 0 5)]
      else if host = ''mixed.example'' then Inr [ip_text (IPv4 93 184 216 34), ip_text (IPv4 192 168 1 7)]
      else if host = ''a.com'' then Inr [ip_text (IPv4 93 184 216 34), ip_text (IPv6 0x2606 0x2800 0x220 1 0x248 0x1893 0x25c8 0x1946)]
      else if host = ''linklocal.example'' then Inr [ip_text (IPv6 0xFE90 0 0 0 0 0 0 1)]
      else Inl (Error ''getaddrinfo ENOTFOUND''))"


section \<open>Requests and target extraction: \<open>extractTargetUrl\<close>\<close>

text \<open>
  What the handler reads of an Express request: the \<^verbatim>\<open>x-render-secret\<close> header (absent
  or a string), the parsed query value \<^verbatim>\<open>req.query.url\<close> (absent, a string, or an
  array or object when the parameter is repeated or nested) and \<^verbatim>\<open>req.path\<close>.
\<close>

datatype qvalue = QUndefined | QString string | QOther

record request =
  x_render_secret :: "string option"
  query_url :: qvalue
  path :: string

text \<open>
  \<^verbatim>\<open>path.match(/^\/render\/(.+)$/i)\<close>: the prefix \<^verbatim>\<open>/render/\<close> in any letter case,
  then one character or more up to the end of the path, none of them a line terminator;
  the result is the captured remainder.
\<close>

definition match_render_path :: "string \<Rightarrow> string option" where
  "match_render_path p =
     (let rest = drop 8 p in
      if toLowerCase (take 8 p) = ''/render/'' \<and> rest \<noteq> [] \<and>
         list_all (\<lambda>c. c \<noteq> CHR 0x0A \<and> c \<noteq> CHR 0x0D) rest
      then Some rest else None)"

text \<open>
  \<^verbatim>\<open>decodeURIComponent\<close>. The text is first cut into plain characters and escapes
  \<^verbatim>\<open>%XX\<close>; a \<^verbatim>\<open>%\<close> without two hexadecimal digits after it is a \<^verbatim>\<open>URIError\<close>.
  Escaped bytes below 128 stand for themselves; the others must spell well-formed UTF-8
  (two to four escaped bytes, no overlong form, no surrogate, nothing above U+10FFFF),
  else \<^verbatim>\<open>URIError\<close>. The decoded string is kept as its UTF-8 bytes.
\<close>

definition hex_digit_value :: "char \<Rightarrow> nat option" where
  "hex_digit_value c =
     map_of (zip ''0123456789abcdefABCDEF''
       [0, 1, 2, 3, 4, 5, 6, 7, 8, 9, 10, 11, 12, 13, 14, 15, 10, 11, 12, 13, 14, 15]) c"

datatype uri_item = Plain char | Escaped nat

fun uri_items :: "string \<Rightarrow> error + uri_item list" where
  "uri_items [] = Inr []"
| "uri_items (c # cs) =
     (if c = CHR ''%'' then
        (case cs of
           h1 # h2 # rest \<Rightarrow>
             (case (hex_digit_value h1, hex_digit_value h2) of
                (Some a, Some b) \<Rightarrow> cons_ok (Escaped (16 * a + b)) (uri_items rest)
              | _ \<Rightarrow> Inl URIError)
         | _ \<Rightarrow> Inl URIError)
      else cons_ok (Plain c) (uri_items cs))"

definition continuation :: "nat \<Rightarrow> bool" where
  "continuation b = (128 \<le> b \<and> b \<le> 191)"

fun utf8_bytes :: "uri_item list \<Rightarrow> error + string" where
  "utf8_bytes [] = Inr []"
| "utf8_bytes (Plain c # r) = cons_ok c (utf8_bytes r)"
| "utf8_bytes (Escaped b # r) =
     (if b < 128 then cons_ok (char_of b) (utf8_bytes r)
      else if 194 \<le> b \<and> b \<le> 223 then
        (case r of
           Escaped b2 # r2 \<Rightarrow>
             if continuation b2
             then cons_ok (char_of b) (cons_ok (char_of b2) (utf8_bytes r2))
             else Inl URIError
         | _ \<Rightarrow> Inl URIError)
      else if 224 \<le> b \<and> b \<le> 239 then
        (case r of
           Escaped b2 # Escaped b3 # r3 \<Rightarrow>
             if continuation b2 \<and> continuation b3 \<and>
                (b = 224 \<longrightarrow> 160 \<le> b2) \<and> (b = 237 \<longrightarrow> b2 \<le> 159)
             then cons_ok (char_of b) (cons_ok (char_of b2) (cons_ok (char_of b3) (utf8_bytes r3)))
             else Inl URIError
         | _ \<Rightarrow> Inl URIError)
      else if 240 \<le> b \<and> b \<le> 244 then
        (case r of
           Escaped b2 # Escaped b3 # Escaped b4 # r4 \<Rightarrow>
             if continuation b2 \<and> continuation b3 \<and> continuation b4 \<and>
                (b = 240 \<longrightarrow> 144 \<le> b2) \<and> (b = 244 \<longrightarrow> b2 \<le> 143)
             then cons_ok (char_of b) (cons_ok (char_of b2) (cons_ok (char_of b3)
                    (cons_ok (char_of b4) (utf8_bytes r4))))
             else Inl URIError
         | _ \<Rightarrow> Inl URIError)
      else Inl URIError)"

definition decodeURIComponent :: "string \<Rightarrow> error + string" where
  "decodeURIComponent s =
     (case uri_items s of Inl e \<Rightarrow> Inl e | Inr items \<Rightarrow> utf8_bytes items)"

definition extractTargetUrl :: "request \<Rightarrow> string" where
  "extractTargetUrl req =
     (case query_url req of
        QString q \<Rightarrow>
          if q \<noteq> [] then q
          else (case match_render_path (path req) of
                  Some m1 \<Rightarrow> (case decodeURIComponent m1 of Inr decoded \<Rightarrow> decoded | Inl e \<Rightarrow> m1)
                | None \<Rightarrow> [])
      | _ \<Rightarrow>
          (case match_render_path (path req) of
             Some m1 \<Rightarrow> (case decodeURIComponent m1 of Inr decoded \<Rightarrow> decoded | Inl e \<Rightarrow> m1)
           | None \<Rightarrow> []))"


section \<open>The cache\<close>

text \<open>
  \<^verbatim>\<open>new LRUCache({ max: MAX_CACHE_ITEMS, ttl: CACHE_TTL_MS })\<close>, by the contract of the
  \<^verbatim>\<open>lru-cache\<close> package: the entries in order of use, the most recently used first,
  each with its key, its value and the clock reading when it was set. An entry is stale
  once it is older than the time to live (0: never); \<open>get\<close> removes a stale entry and
  reports nothing, and moves a live one to the front; \<open>set\<close> replaces the key's entry, puts
  it first and, beyond \<open>max\<close> entries (0: no bound), drops the least recently used.
\<close>

type_synonym lru = "(string \<times> string \<times> nat) list"

definition stale :: "nat \<Rightarrow> nat \<Rightarrow> nat \<Rightarrow> bool" where
  "stale ttl now start = (ttl \<noteq> 0 \<and> start + ttl < now)"

definition cache_get :: "nat \<Rightarrow> nat \<Rightarrow> string \<Rightarrow> lru \<Rightarrow> string option \<times> lru" where
  "cache_get ttl now k c =
     (case find (\<lambda>e. fst e = k) c of
        None \<Rightarrow> (None, c)
      | Some (k', v, start) \<Rightarrow>
          if stale ttl now start then (None, filter (\<lambda>e. fst e \<noteq> k) c)
          else (Some v, (k, v, start) # filter (\<lambda>e. fst e \<noteq> k) c))"

definition cache_set :: "nat \<Rightarrow> nat \<Rightarrow> string \<Rightarrow> string \<Rightarrow> lru \<Rightarrow> lru" where
  "cache_set max_items now k v c =
     (let c' = (k, v, now) # filter (\<lambda>e. fst e \<noteq> k) c
      in if max_items \<noteq> 0 \<and> max_items < length c' then take max_items c' else c')"


section \<open>Configuration, browser and server state\<close>

text \<open>
  The configuration constants read from the environment at start-up. \<open>SECRET\<close> is
  \<^verbatim>\<open>process.env.RENDER_SECRET || ""\<close>.
\<close>

record config =
  SECRET :: string
  ALLOW_HOSTS :: "string list"
  DENY_PRIVATE_IPS :: bool
  CACHE_TTL_MS :: nat
  MAX_CACHE_ITEMS :: nat

definition SECRET_of_env :: "string option \<Rightarrow> string" where
  "SECRET_of_env v = (case v of None \<Rightarrow> [] | Some s \<Rightarrow> if s = [] then [] else s)"

text \<open>
  \<^verbatim>\<open>new URL(u)\<close> is the platform's URL parser, a parameter \<open>parseURL\<close> here: nothing
  when the constructor throws, else the fields the server reads.
\<close>

record url =
  url_protocol :: string
  url_host :: string
  url_origin :: string

definition isAbsoluteHttpUrl :: "(string \<Rightarrow> url option) \<Rightarrow> string \<Rightarrow> bool" where
  "isAbsoluteHttpUrl parseURL u =
     (case parseURL u of
        None \<Rightarrow> False
      | Some x \<Rightarrow> url_protocol x = ''http:'' \<or> url_protocol x = ''https:'')"

text \<open>
  The browser engine is a black box: a render attempt is run against the outcomes of the
  engine calls it may reach (\<open>Inl\<close>: the promise rejects) and the clock readings at its
  two cache accesses. Every engine call made is appended to the log of the state.
\<close>

record attempt =
  t_get :: nat
  launch :: "error + unit"
  newPage :: "error + unit"
  setUserAgent :: "error + unit"
  setRequestInterception :: "error + unit"
  goto :: "error + unit"
  waitForSelector :: "error + unit"
  nudge :: "error + unit"
  waitForFunction :: "error + unit"
  injectBase :: "error + unit"
  strip :: "error + unit"
  content :: "error + string"
  t_set :: nat
  close :: "error + unit"

datatype event =
    EvLaunch | EvNewPage | EvSetUserAgent | EvSetRequestInterception
  | EvGoto string | EvWaitForSelector | EvEvaluate | EvWaitForFunction
  | EvContent | EvClose

record state =
  cache :: lru
  browserPromise :: "(error + unit) option"
  log :: "event list"

type_synonym 'a action = "state \<Rightarrow> (error + 'a) \<times> state"

text \<open>
  \<open>call ev r\<close> awaits an engine call with outcome \<open>r\<close>; \<open>call_catch ev r\<close> is the same
  call followed by \<^verbatim>\<open>.catch(() => {})\<close>; \<open>and_then\<close> sequences two awaits, the second
  skipped when the first throws; \<open>finally_do\<close> is \<^verbatim>\<open>try { ... } finally { ... }\<close> with a
  clean-up that does not throw.
\<close>

definition call :: "event \<Rightarrow> error + 'a \<Rightarrow> 'a action" where
  "call ev r st = (r, st\<lparr>log := log st @ [ev]\<rparr>)"

definition call_catch :: "event \<Rightarrow> error + unit \<Rightarrow> unit action" where
  "call_catch ev r st = (Inr (), st\<lparr>log := log st @ [ev]\<rparr>)"

definition and_then :: "'a action \<Rightarrow> ('a \<Rightarrow> 'b action) \<Rightarrow> 'b action" where
  "and_then m f st = (case m st of (Inl e, st') \<Rightarrow> (Inl e, st') | (Inr x, st') \<Rightarrow> f x st')"

definition finally_do :: "'a action \<Rightarrow> unit action \<Rightarrow> 'a action" where
  "finally_do m cleanup st = (case m st of (r, st') \<Rightarrow> (r, snd (cleanup st')))"

definition getBrowser :: "attempt \<Rightarrow> unit action" where
  "getBrowser att st =
     (case browserPromise st of
        None \<Rightarrow> (launch att, st\<lparr>browserPromise := Some (launch att), log := log st @ [EvLaunch]\<rparr>)
      | Some r \<Rightarrow> (r, st))"


section \<open>The render: \<open>renderUrl\<close>\<close>

definition origin_of :: "(string \<Rightarrow> url option) \<Rightarrow> string \<Rightarrow> string action" where
  "origin_of parseURL targetUrl st =
     (case parseURL targetUrl of
        None \<Rightarrow> (Inl (Error ''Invalid URL''), st)
      | Some x \<Rightarrow> (Inr (url_origin x), st))"

definition cache_store :: "config \<Rightarrow> nat \<Rightarrow> string \<Rightarrow> string \<Rightarrow> string action" where
  "cache_store cfg now targetUrl html st =
     (Inr html, st\<lparr>cache := cache_set (MAX_CACHE_ITEMS cfg) now targetUrl html (cache st)\<rparr>)"

text \<open>The body of the \<^verbatim>\<open>try\<close> block, from the navigation to the cache store.\<close>

definition try_body :: "config \<Rightarrow> (string \<Rightarrow> url option) \<Rightarrow> attempt \<Rightarrow> string \<Rightarrow> string action" where
  "try_body cfg parseURL att targetUrl =
     and_then (call (EvGoto targetUrl) (goto att)) (\<lambda>_.
     and_then (call_catch EvWaitForSelector (waitForSelector att)) (\<lambda>_.
     and_then (call EvEvaluate (nudge att)) (\<lambda>_.
     and_then (call_catch EvWaitForFunction (waitForFunction att)) (\<lambda>_.
     and_then (origin_of parseURL targetUrl) (\<lambda>origin.
     and_then (call EvEvaluate (injectBase att)) (\<lambda>_.
     and_then (call EvEvaluate (strip att)) (\<lambda>_.
     and_then (call EvContent (content att)) (\<lambda>html.
     cache_store cfg (t_set att) targetUrl html))))))))"

text \<open>
  \<^verbatim>\<open>if (fromCache) return fromCache\<close>: nothing and the empty string are both falsy.
\<close>

definition truthy :: "string option \<Rightarrow> bool" where
  "truthy v = (case v of None \<Rightarrow> False | Some s \<Rightarrow> s \<noteq> [])"

definition renderUrl :: "config \<Rightarrow> (string \<Rightarrow> url option) \<Rightarrow> attempt \<Rightarrow> string \<Rightarrow> string action" where
  "renderUrl cfg parseURL att targetUrl st =
     (case cache_get (CACHE_TTL_MS cfg) (t_get att) targetUrl (cache st) of
        (fromCache, c) \<Rightarrow>
          if truthy fromCache then (Inr (the fromCache), st\<lparr>cache := c\<rparr>)
          else
            (and_then (getBrowser att) (\<lambda>_.
             and_then (call EvNewPage (newPage att)) (\<lambda>_.
             and_then (call EvSetUserAgent (setUserAgent att)) (\<lambda>_.
             and_then (call EvSetRequestInterception (setRequestInterception att)) (\<lambda>_.
             finally_do (try_body cfg parseURL att targetUrl)
                        (call_catch EvClose (close att)))))))
            (st\<lparr>cache := c\<rparr>))"


section \<open>The render endpoint\<close>

datatype body = Text string | Html string | RenderError error

record response =
  status :: nat
  body :: body
  max_age :: "nat option"

text \<open>
  The handler of \<^verbatim>\<open>GET /render\<close>. The body \<open>RenderError e\<close> stands for the text
  \<^verbatim>\<open>Render error: \<close> followed by the message of \<open>e\<close>; \<open>max_age\<close> is the
  \<^verbatim>\<open>Cache-Control: public, max-age=\<close> header.
\<close>

definition render_handler ::
  "config \<Rightarrow> (string \<Rightarrow> url option) \<Rightarrow> (string \<Rightarrow> error + string list) \<Rightarrow> (string \<Rightarrow> nat) \<Rightarrow>
   attempt \<Rightarrow> request \<Rightarrow> state \<Rightarrow> response \<times> state" where
  "render_handler cfg parseURL lookup isIP att req st =
     (if SECRET cfg = [] \<or> x_render_secret req \<noteq> Some (SECRET cfg)
      then (\<lparr>status = 401, body = Text ''unauthorized'', max_age = None\<rparr>, st)
      else
        let targetUrl = extractTargetUrl req in
        if \<not> isAbsoluteHttpUrl parseURL targetUrl
        then (\<lparr>status = 400,
               body = Text ''bad request: url must be absolute http(s) via ?url= or /render/<url>'',
               max_age = None\<rparr>, st)
        else
          (case parseURL targetUrl of
             None \<Rightarrow> (\<lparr>status = 500, body = RenderError (Error ''Invalid URL''), max_age = None\<rparr>, st)
           | Some x \<Rightarrow>
               (case hostAllowed (ALLOW_HOSTS cfg) (url_host x) of
                  Inl e \<Rightarrow> (\<lparr>status = 500, body = RenderError e, max_age = None\<rparr>, st)
                | Inr allowed \<Rightarrow>
                    if \<not> allowed
                    then (\<lparr>status = 403, body = Text ''forbidden: host not allowed'', max_age = None\<rparr>, st)
                    else
                      (case validateResolvablePublic (DENY_PRIVATE_IPS cfg) lookup isIP (url_host x) of
                         Inl e \<Rightarrow> (\<lparr>status = 500, body = RenderError e, max_age = None\<rparr>, st)
                       | Inr u \<Rightarrow>
                           (case renderUrl cfg parseURL att targetUrl st of
                              (Inl e, st') \<Rightarrow>
                                (\<lparr>status = 500, body = RenderError e, max_age = None\<rparr>, st')
                            | (Inr html, st') \<Rightarrow>
                                (\<lparr>status = 200, body = Html html,
                                  max_age = Some (CACHE_TTL_MS cfg div 1000)\<rparr>, st'))))))"


section \<open>Fixtures\<close>

text \<open>
  Concrete inputs to run the server on: a URL parser given by its table on four
  strings, a configuration, a render attempt in which every engine call succeeds and the
  page serialises to a given HTML, and the state of a server that has just started.
  \<open>navigations u st\<close> counts the navigations to \<open>u\<close> logged in \<open>st\<close>.
\<close>

definition example_URL :: "string \<Rightarrow> url option" where
  "example_URL u =
     (if u = ''https://a.com/p''
      then Some \<lparr>url_protocol = ''https:'', url_host = ''a.com'', url_origin = ''https://a.com''\<rparr>
      else if u = ''https://blocked.internal/''
      then Some \<lparr>url_protocol = ''https:'', url_host = ''blocked.internal'',
                 url_origin = ''https://blocked.internal''\<rparr>
      else if u = ''https://evil.com/''
      then Some \<lparr>url_protocol = ''https:'', url_host = ''evil.com'', url_origin = ''https://evil.com''\<rparr>
      else if u = ''ftp://a.com''
      then Some \<lparr>url_protocol = ''ftp:'', url_host = ''a.com'', url_origin = ''null''\<rparr>
      else None)"

definition example_config :: config where
  "example_config =
     \<lparr>SECRET = ''s1'', ALLOW_HOSTS = [''a.com'', ''blocked.internal''], DENY_PRIVATE_IPS = True,
      CACHE_TTL_MS = 300000, MAX_CACHE_ITEMS = 500\<rparr>"

definition smooth_attempt :: "nat \<Rightarrow> string \<Rightarrow> attempt" where
  "smooth_attempt t html =
     \<lparr>t_get = t, launch = Inr (), newPage = Inr (), setUserAgent = Inr (),
      setRequestInterception = Inr (), goto = Inr (), waitForSelector = Inr (), nudge = Inr (),
      waitForFunction = Inr (), injectBase = Inr (), strip = Inr (), content = Inr html,
      t_set = t + 1500, close = Inr ()\<rparr>"

definition fresh_server :: state where
  "fresh_server = \<lparr>cache = [], browserPromise = None, log = []\<rparr>"

definition navigations :: "string \<Rightarrow> state \<Rightarrow> nat" where
  "navigations u st = length (filter (\<lambda>e. e = EvGoto u) (log st))"


section \<open>Reading address text back\<close>

text \<open>
  Proof devices for the address texts: the value of a digit, the number a digit string
  denotes in a base, and what it means for \<open>l\<close> groups from index \<open>b\<close> on to be zero.
\<close>

definition digit_val :: "char \<Rightarrow> nat" where
  "digit_val c = length (takeWhile (\<lambda>d. d \<noteq> c) ''0123456789abcdef'')"

definition number_of_text :: "nat \<Rightarrow> string \<Rightarrow> nat" where
  "number_of_text base s = foldl (\<lambda>acc c. base * acc + digit_val c) 0 s"

definition zero_run :: "16 word list \<Rightarrow> nat \<Rightarrow> nat \<Rightarrow> bool" where
  "zero_run ws b l = (b + l \<le> length ws \<and> (\<forall>j. j < l \<longrightarrow> ws ! (b + j) = 0))"


section \<open>Properties of the allow-list\<close>

lemma replace_first_star_head:
  "replace_first [backslash, CHR ''*''] rep (CHR ''*'' # s) =
     CHR ''*'' # replace_first [backslash, CHR ''*''] rep s"
  by (simp add: backslash_def)

lemma escape_meta_star_head: "escape_meta (CHR ''*'' # rest) = CHR ''*'' # escape_meta rest"
  by (simp add: escape_meta_def is_meta_def backslash_def)

lemma tokens_star_head: "tokens (CHR ''*'' # s) = TStar # tokens s"
  by (cases s) (simp_all add: backslash_def)

lemma RegExp_anchor_star: "RegExp (CHR ''^'' # CHR ''*'' # s) = Inl SyntaxError"
  by (simp add: RegExp_def backslash_def tokens_star_head cons_ok_def)

lemma wildcardMatch_leading_star: "wildcardMatch host (CHR ''*'' # rest) = Inl SyntaxError"
  by (simp add: wildcardMatch_def escape_meta_star_head replace_first_star_head
      RegExp_anchor_star del: replace_first.simps)

lemma ALLOW_HOSTS_of_env_examples:
  "ALLOW_HOSTS_of_env None = []"
  "ALLOW_HOSTS_of_env (Some []) = []"
  "ALLOW_HOSTS_of_env (Some ''*.example.com'') = [''*.example.com'']"
  by (simp_all add: ALLOW_HOSTS_of_env_def trim_def is_space_def)

lemma escape_meta_Cons:
  "escape_meta (c # p) = (if is_meta c then [backslash, c] else [c]) @ escape_meta p"
  by (simp add: escape_meta_def)

lemma escaped_throughout_Cons:
  "escaped_throughout (c # s) =
     (if c = backslash then s \<noteq> [] \<and> escaped_throughout (tl s)
      else c \<notin> set ''.+?^${}()|[]'' \<and> escaped_throughout s)"
  by (cases s) auto

lemma is_meta_cases:
  "is_meta c \<longleftrightarrow> c = backslash \<or> c \<in> set ''.+?^${}()|[]''"
  by (auto simp: is_meta_def)

lemma escaped_throughout_escape_meta: "escaped_throughout (escape_meta p)"
proof (induction p)
  case Nil
  then show ?case by (simp add: escape_meta_def)
next
  case (Cons c p)
  show ?case
    unfolding escape_meta_Cons using Cons
    by (auto simp: escaped_throughout_Cons is_meta_cases backslash_def)
qed

lemma escaped_throughout_replaced:
  "escaped_throughout (replace_first [backslash, CHR ''*''] ''.*'' (escape_meta p))"
proof (induction p)
  case Nil
  then show ?case by (simp add: escape_meta_def)
next
  case (Cons c p)
  have star: "\<not> is_meta (CHR ''*'')" by (simp add: is_meta_def backslash_def)
  have mb: "is_meta backslash" by (simp add: is_meta_def)
  have bs: "backslash \<noteq> CHR ''*''" "CHR ''*'' \<noteq> backslash" by (simp_all add: backslash_def)
  show ?case
  proof (cases "c = backslash")
    case True
    show ?thesis
    proof (cases p)
      case Nil
      with True mb bs show ?thesis
        by (simp add: escape_meta_def)
    next
      case (Cons d q)
      show ?thesis
      proof (cases "d = CHR ''*''")
        case t: True
        have "replace_first [backslash, CHR ''*''] ''.*'' (escape_meta (c # p)) =
            backslash # CHR ''.'' # CHR ''*'' # escape_meta q"
          using True t Cons star mb bs by (simp add: escape_meta_Cons)
        then show ?thesis
          using escaped_throughout_escape_meta[of q]
          by (simp add: escaped_throughout_Cons backslash_def)
      next
        case f: False
        have "replace_first [backslash, CHR ''*''] ''.*'' (escape_meta (c # p)) =
            backslash # backslash # replace_first [backslash, CHR ''*''] ''.*'' (escape_meta p)"
          using True f Cons mb bs by (auto simp: escape_meta_Cons)
        then show ?thesis using Cons.IH by simp
      qed
    qed
  next
    case False
    show ?thesis
    proof (cases "is_meta c")
      case True
      with False have c: "c \<noteq> CHR ''*''" using star by auto
      have "replace_first [backslash, CHR ''*''] ''.*'' (escape_meta (c # p)) =
            backslash # c # replace_first [backslash, CHR ''*''] ''.*'' (escape_meta p)"
        using True False c bs by (simp add: escape_meta_Cons)
      then show ?thesis using Cons.IH by simp
    next
      case nm: False
      have "replace_first [backslash, CHR ''*''] ''.*'' (escape_meta (c # p)) =
            c # replace_first [backslash, CHR ''*''] ''.*'' (escape_meta p)"
        using nm False by (simp add: escape_meta_Cons)
      then show ?thesis
        using Cons.IH nm False by (simp add: escaped_throughout_Cons is_meta_cases)
    qed
  qed
qed

lemma hostAllowed_empty: "hostAllowed [] host = Inr True"
  by (simp add: hostAllowed_def)

text \<open>
  C2 (the code departs from the claim). The claim: a pattern with \<^verbatim>\<open>*\<close> matches exactly
  the hosts obtained by letting the first \<^verbatim>\<open>*\<close> stand for any character sequence. The
  code escapes every syntax character but \<^verbatim>\<open>*\<close> and then looks for a backslash and a
  star to replace, which the escaping leaves only where the pattern itself has a backslash
  before the star, so the star of a wildcard pattern reaches the engine as a
  quantifier: a leading star is a \<^verbatim>\<open>SyntaxError\<close>, and a later star repeats the
  character before it. At each of the three inputs below the outcome differs from the
  specification's wildcard.
\<close>

theorem wildcardMatch_star_is_quantifier:
  "wildcardMatch ''a.example.com'' ''*.example.com'' = Inl SyntaxError \<and>
   spec_wildcard ''a.example.com'' ''*.example.com'' \<and>
   wildcardMatch ''ab.example.com'' ''a*.example.com'' = Inr False \<and>
   spec_wildcard ''ab.example.com'' ''a*.example.com'' \<and>
   wildcardMatch ''.example.com'' ''a*.example.com'' = Inr True \<and>
   \<not> spec_wildcard ''.example.com'' ''a*.example.com''"
proof -
  have "wildcardMatch ''a.example.com'' ''*.example.com'' = Inl SyntaxError"
    by (rule wildcardMatch_leading_star)
  moreover have "wildcardMatch ''ab.example.com'' ''a*.example.com'' = Inr False"
    by (simp add: wildcardMatch_def escape_meta_def is_meta_def backslash_def RegExp_def
        cons_ok_def test_def lower_char_def)
  moreover have "wildcardMatch ''.example.com'' ''a*.example.com'' = Inr True"
    by (simp add: wildcardMatch_def escape_meta_def is_meta_def backslash_def RegExp_def
        cons_ok_def test_def lower_char_def)
  moreover have "spec_wildcard ''a.example.com'' ''*.example.com''"
    by (simp add: spec_wildcard_def toLowerCase_def lower_char_def suffix_def)
  moreover have "spec_wildcard ''ab.example.com'' ''a*.example.com''"
    by (simp add: spec_wildcard_def toLowerCase_def lower_char_def suffix_def)
  moreover have "\<not> spec_wildcard ''.example.com'' ''a*.example.com''"
    by (simp add: spec_wildcard_def toLowerCase_def lower_char_def)
  ultimately show ?thesis by blast
qed

text \<open>
  C3 (the code departs from the claim). With no pattern configured every host is allowed,
  as claimed. With the one pattern \<^verbatim>\<open>*.example.com\<close> the claim gives \<open>true\<close> for
  \<^verbatim>\<open>a.example.com\<close> and \<open>false\<close> for \<^verbatim>\<open>example.com\<close> and \<^verbatim>\<open>evil.com\<close>; the code
  throws a \<^verbatim>\<open>SyntaxError\<close> for all three, since the pattern does not compile.
\<close>

theorem hostAllowed_example_pattern_throws:
  "hostAllowed [] h = Inr True \<and>
   hostAllowed [''*.example.com''] ''a.example.com'' = Inl SyntaxError \<and>
   hostAllowed [''*.example.com''] ''example.com'' = Inl SyntaxError \<and>
   hostAllowed [''*.example.com''] ''evil.com'' = Inl SyntaxError"
  by (simp add: hostAllowed_def wildcardMatch_leading_star)


section \<open>Properties of the private-address guard\<close>

lemma index_of_nth:
  "distinct xs \<Longrightarrow> n < length xs \<Longrightarrow> length (takeWhile (\<lambda>d. d \<noteq> xs ! n) xs) = n"
proof (induction xs arbitrary: n)
  case Nil
  then show ?case by simp
next
  case (Cons x xs)
  show ?case
  proof (cases n)
    case 0
    then show ?thesis by simp
  next
    case (Suc m)
    with Cons.prems have "xs ! m \<in> set xs" "x \<notin> set xs" by auto
    then have "x \<noteq> xs ! m" by auto
    with Suc Cons show ?thesis by simp
  qed
qed

lemma nth_in_drop:
  assumes "distinct xs" "n < length xs"
  shows "xs ! n \<in> set (drop k xs) \<longleftrightarrow> k \<le> n"
proof
  assume "xs ! n \<in> set (drop k xs)"
  then obtain i where i: "i < length (drop k xs)" "drop k xs ! i = xs ! n"
    by (auto simp: in_set_conv_nth)
  then have "xs ! (k + i) = xs ! n" "k + i < length xs" by auto
  with assms have "k + i = n" by (simp add: nth_eq_iff_index_eq)
  then show "k \<le> n" by simp
next
  assume "k \<le> n"
  with assms(2) have "drop k xs ! (n - k) = xs ! n" "n - k < length (drop k xs)" by auto
  then show "xs ! n \<in> set (drop k xs)" by (metis nth_mem)
qed

lemma nth_in_take:
  assumes "distinct xs" "n < length xs"
  shows "xs ! n \<in> set (take k xs) \<longleftrightarrow> n < k"
proof
  assume "xs ! n \<in> set (take k xs)"
  then obtain i where i: "i < length (take k xs)" "take k xs ! i = xs ! n"
    by (auto simp: in_set_conv_nth)
  then have "xs ! i = xs ! n" "i < length xs" "i < k" by auto
  with assms have "i = n" by (simp add: nth_eq_iff_index_eq)
  with \<open>i < k\<close> show "n < k" by simp
next
  assume "n < k"
  with assms(2) have "take k xs ! n = xs ! n" "n < length (take k xs)" by auto
  then show "xs ! n \<in> set (take k xs)" by (metis nth_mem)
qed

lemma digit_char_set: "n < 10 \<Longrightarrow> digit_char n \<in> set ''0123456789''"
  unfolding digit_char_def by (rule nth_mem) simp

lemma hex_char_set: "n < 16 \<Longrightarrow> hex_char n \<in> set ''0123456789abcdef''"
  unfolding hex_char_def by (rule nth_mem) simp

lemma digit_char_hex_char: "n < 10 \<Longrightarrow> digit_char n = hex_char n"
proof -
  assume "n < 10"
  then have "(''0123456789'' @ ''abcdef'') ! n = ''0123456789'' ! n"
    by (subst nth_append) simp
  then show ?thesis by (simp add: digit_char_def hex_char_def)
qed

lemma digit_val_hex: "n < 16 \<Longrightarrow> digit_val (hex_char n) = n"
  unfolding digit_val_def hex_char_def by (rule index_of_nth) simp_all

lemma digit_val_digit: "n < 10 \<Longrightarrow> digit_val (digit_char n) = n"
  by (simp add: digit_char_hex_char digit_val_hex)

lemma digit_char_6789: "y < 10 \<Longrightarrow> digit_char y \<in> set ''6789'' \<longleftrightarrow> 6 \<le> y"
  using nth_in_drop[of "''0123456789''" y 6] by (simp add: digit_char_def)

lemma digit_char_01: "y < 10 \<Longrightarrow> digit_char y \<in> set ''01'' \<longleftrightarrow> y \<le> 1"
  using nth_in_take[of "''0123456789''" y 2] by (simp add: digit_char_def) linarith

lemma digit_char_eq_iff: "x < 10 \<Longrightarrow> k < 10 \<Longrightarrow> digit_char x = digit_char k \<longleftrightarrow> x = k"
  unfolding digit_char_def by (rule nth_eq_iff_index_eq) simp_all

lemma digit_char_eq_123:
  "x < 10 \<Longrightarrow> digit_char x = CHR ''1'' \<longleftrightarrow> x = 1"
  "x < 10 \<Longrightarrow> digit_char x = CHR ''2'' \<longleftrightarrow> x = 2"
  "x < 10 \<Longrightarrow> digit_char x = CHR ''3'' \<longleftrightarrow> x = 3"
  using digit_char_eq_iff[of x 1] digit_char_eq_iff[of x 2] digit_char_eq_iff[of x 3]
  by (simp_all add: digit_char_def)

lemma number_of_dec_text: "n < 1000 \<Longrightarrow> number_of_text 10 (dec_text n) = n"
proof -
  assume n: "n < 1000"
  have h: "n div 100 = n div 10 div 10" by (simp add: div_mult2_eq)
  have t: "10 * (n div 10 div 10) + n div 10 mod 10 = n div 10" by simp
  have u: "10 * (n div 10) + n mod 10 = n" by simp
  have c: "n div 100 < 10" using n by simp
  have d: "n < 100 \<Longrightarrow> n div 10 < 10" by simp
  show ?thesis
  proof (cases "n < 10")
    case True
    then show ?thesis by (simp add: number_of_text_def dec_text_def digit_val_digit)
  next
    case False
    show ?thesis
    proof (cases "n < 100")
      case True
      with False d u show ?thesis by (simp add: number_of_text_def dec_text_def digit_val_digit)
    next
      case False
      with c h t u show ?thesis by (simp add: number_of_text_def dec_text_def digit_val_digit)
    qed
  qed
qed

lemma dec_text_inj: "n < 1000 \<Longrightarrow> m < 1000 \<Longrightarrow> dec_text n = dec_text m \<longleftrightarrow> n = m"
  by (metis number_of_dec_text)

lemma dec_text_digits: "n < 1000 \<Longrightarrow> set (dec_text n) \<subseteq> set ''0123456789''"
proof -
  assume n: "n < 1000"
  have a: "n mod 10 < 10" by simp
  have b: "n div 10 mod 10 < 10" by simp
  have c: "n div 100 < 10" using n by simp
  have d: "n < 100 \<Longrightarrow> n div 10 < 10" by simp
  show ?thesis
    using digit_char_set[OF a] digit_char_set[OF b] digit_char_set[OF c] digit_char_set[of n]
      digit_char_set[of "n div 10"] d
    by (simp add: dec_text_def)
qed

lemma dec_text_no_dot: "n < 1000 \<Longrightarrow> CHR ''.'' \<notin> set (dec_text n)"
  using dec_text_digits[of n] by auto

lemma dec_text_no_colon: "n < 1000 \<Longrightarrow> CHR '':'' \<notin> set (dec_text n)"
  using dec_text_digits[of n] by auto

lemma dec_text_nonempty: "dec_text n \<noteq> []"
  by (simp add: dec_text_def)

lemma sep_prefix:
  "sep \<notin> set h \<Longrightarrow> sep \<notin> set p \<Longrightarrow> prefix (p @ sep # q) (h @ sep # r) \<longleftrightarrow> h = p \<and> prefix q r"
proof (induction h arbitrary: p)
  case Nil
  then show ?case by (cases p) auto
next
  case (Cons y ys)
  then show ?case by (cases p) auto
qed

lemma sep_eq:
  "sep \<notin> set h \<Longrightarrow> sep \<notin> set p \<Longrightarrow> h @ sep # r = p @ sep # q \<longleftrightarrow> h = p \<and> r = q"
proof (induction h arbitrary: p)
  case Nil
  then show ?case by (cases p) auto
next
  case (Cons y ys)
  then show ?case by (cases p) auto
qed

lemma prefix_before_sep:
  "sep \<notin> set p \<Longrightarrow> prefix p (h @ sep # r) \<Longrightarrow> prefix p h"
proof (induction h arbitrary: p)
  case Nil
  then show ?case by (cases p) auto
next
  case (Cons y ys)
  then show ?case by (cases p) auto
qed


lemma dec_text_hd_digit: "n < 1000 \<Longrightarrow> \<exists>x xs. dec_text n = x # xs \<and> x \<in> set ''0123456789''"
  using dec_text_digits[of n] dec_text_nonempty[of n] by (cases "dec_text n") auto

lemma dotted_prefix1:
  assumes "a < 1000" "k < 1000"
  shows "prefix (dec_text k @ ''.'') (dotted a b c d) \<longleftrightarrow> a = k"
  using assms sep_prefix[of "CHR ''.''" "dec_text a" "dec_text k" "[]"]
  by (simp add: dotted_def dec_text_no_dot dec_text_inj)

lemma dotted_prefix2:
  assumes "a < 1000" "k < 1000" "b < 1000" "l < 1000"
  shows "prefix (dec_text k @ ''.'' @ dec_text l @ ''.'') (dotted a b c d) \<longleftrightarrow> a = k \<and> b = l"
  using assms sep_prefix[of "CHR ''.''" "dec_text a" "dec_text k" "dec_text l @ ''.''"]
    sep_prefix[of "CHR ''.''" "dec_text b" "dec_text l" "[]"]
  by (simp add: dotted_def dec_text_no_dot dec_text_inj)

lemma dotted_eq:
  assumes "a < 1000" "k < 1000" "b < 1000" "l < 1000" "c < 1000" "m < 1000" "d < 1000" "n < 1000"
  shows "dotted a b c d = dotted k l m n \<longleftrightarrow> a = k \<and> b = l \<and> c = m \<and> d = n"
  using assms sep_eq[of "CHR ''.''" "dec_text a" "dec_text k"]
    sep_eq[of "CHR ''.''" "dec_text b" "dec_text l"] sep_eq[of "CHR ''.''" "dec_text c" "dec_text m"]
  by (simp add: dotted_def dec_text_no_dot dec_text_inj)

lemma digit_char_is_digit: "y < 10 \<Longrightarrow> is_digit (digit_char y)"
  using digit_char_set[of y] by (simp add: is_digit_def)

lemma digit_char_not_dot: "x < 10 \<Longrightarrow> digit_char x \<noteq> CHR ''.''"
  using digit_char_set[of x] by auto

lemma re_172_prefix: "re_172 s \<Longrightarrow> prefix ''172.'' s"
  by (cases s rule: re_172.cases) auto

lemma re_172_second_octet:
  assumes "b < 1000"
  shows "re_172 (''172.'' @ dec_text b @ ''.'' @ r) \<longleftrightarrow> 16 \<le> b \<and> b \<le> 31"
proof -
  have m: "b mod 10 < 10" and t: "b div 10 mod 10 < 10" by simp_all
  have h: "b div 100 < 10" using assms by simp
  consider "b < 10" | "10 \<le> b" "b < 100" | "100 \<le> b" by linarith
  then show ?thesis
  proof cases
    case 1
    then show ?thesis by (cases r) (simp_all add: dec_text_def is_digit_def)
  next
    case 2
    then have x: "b div 10 < 10" by simp
    have u: "10 * (b div 10) + b mod 10 = b" by simp
    have "re_172 (''172.'' @ dec_text b @ ''.'' @ r) \<longleftrightarrow>
        (b div 10 = 1 \<and> 6 \<le> b mod 10) \<or> b div 10 = 2 \<or> (b div 10 = 3 \<and> b mod 10 \<le> 1)"
      using 2 x m
      by (simp add: dec_text_def digit_char_eq_123 digit_char_6789 digit_char_01 digit_char_is_digit
          del: list.set set_simps)
    also have "\<dots> \<longleftrightarrow> 16 \<le> b \<and> b \<le> 31" using u x by linarith
    finally show ?thesis .
  next
    case 3
    then show ?thesis using m by (simp add: dec_text_def digit_char_not_dot)
  qed
qed

lemma re_172_dotted:
  assumes "a < 1000" "b < 1000"
  shows "re_172 (dotted a b c d) \<longleftrightarrow> a = 172 \<and> 16 \<le> b \<and> b \<le> 31"
proof (cases "a = 172")
  case True
  have "dotted 172 b c d = ''172.'' @ dec_text b @ ''.'' @ (dec_text c @ ''.'' @ dec_text d)"
    by (simp add: dotted_def dec_text_def digit_char_def)
  with True re_172_second_octet[OF assms(2)] show ?thesis by simp
next
  case False
  have "''172.'' = dec_text 172 @ ''.''" by (simp add: dec_text_def digit_char_def)
  with False dotted_prefix1[of a 172 b c d] assms re_172_prefix[of "dotted a b c d"]
  show ?thesis by auto
qed

lemma dotted_not_ipv6:
  assumes "a < 1000"
  shows "dotted a b c d \<noteq> ''::1''" "\<not> prefix ''fe80:'' (dotted a b c d)"
  using dec_text_hd_digit[OF assms] by (auto simp: dotted_def)

lemma isPrivate_dotted:
  assumes "a < 256" "b < 256" "c < 256" "d < 256"
  shows "isPrivate (dotted a b c d) \<longleftrightarrow>
     (a = 10 \<or> (a = 172 \<and> 16 \<le> b \<and> b \<le> 31) \<or> (a = 192 \<and> b = 168) \<or>
      (a = 127 \<and> b = 0 \<and> c = 0 \<and> d = 1) \<or> (a = 169 \<and> b = 254))"
proof -
  have lt: "a < 1000" "b < 1000" "c < 1000" "d < 1000" using assms by simp_all
  have t10: "''10.'' = dec_text 10 @ ''.''"
    and t192: "''192.168.'' = dec_text 192 @ ''.'' @ dec_text 168 @ ''.''"
    and t169: "''169.254.'' = dec_text 169 @ ''.'' @ dec_text 254 @ ''.''"
    and t127: "''127.0.0.1'' = dotted 127 0 0 1"
    by (simp_all add: dotted_def dec_text_def digit_char_def)
  have p10: "startsWith (dotted a b c d) ''10.'' \<longleftrightarrow> a = 10"
    unfolding startsWith_def t10 using lt by (simp add: dotted_prefix1)
  have p192: "startsWith (dotted a b c d) ''192.168.'' \<longleftrightarrow> a = 192 \<and> b = 168"
    unfolding startsWith_def t192 using lt dotted_prefix2[of a 192 b 168 c d] by simp
  have p169: "startsWith (dotted a b c d) ''169.254.'' \<longleftrightarrow> a = 169 \<and> b = 254"
    unfolding startsWith_def t169 using lt dotted_prefix2[of a 169 b 254 c d] by simp
  have p127: "dotted a b c d = ''127.0.0.1'' \<longleftrightarrow> a = 127 \<and> b = 0 \<and> c = 0 \<and> d = 1"
    unfolding t127 using lt by (simp add: dotted_eq)
  have p6: "dotted a b c d \<noteq> ''::1''" "\<not> startsWith (dotted a b c d) ''fe80:''"
    unfolding startsWith_def using dotted_not_ipv6[OF lt(1)] by auto
  show ?thesis
    unfolding isPrivate_def p10 p192 p169 p127 re_172_dotted[OF lt(1) lt(2)]
    using p6 by blast
qed


lemma number_of_hex_text: "n < 65536 \<Longrightarrow> number_of_text 16 (hex_text n) = n"
proof -
  assume n: "n < 65536"
  have f1: "n div 4096 mod 16 = n div 4096" using n by simp
  have d1: "n div 256 = n div 16 div 16" and d2: "n div 4096 = n div 16 div 16 div 16"
    by (simp_all add: div_mult2_eq)
  have f2: "16 * (n div 4096) + n div 256 mod 16 = n div 256" unfolding d1 d2 by simp
  have f3: "16 * (n div 256) + n div 16 mod 16 = n div 16" unfolding d1 by simp
  have f4: "16 * (n div 16) + n mod 16 = n" by simp
  have b1: "n < 256 \<Longrightarrow> n div 16 < 16" and b2: "n < 4096 \<Longrightarrow> n div 256 < 16" by simp_all
  have m: "n mod 16 < 16" "n div 16 mod 16 < 16" "n div 256 mod 16 < 16" "n div 4096 mod 16 < 16"
    by simp_all
  consider "n < 16" | "16 \<le> n" "n < 256" | "256 \<le> n" "n < 4096" | "4096 \<le> n" by linarith
  then show ?thesis
  proof cases
    case 1
    then show ?thesis by (simp add: number_of_text_def hex_text_def digit_val_hex)
  next
    case 2
    with b1 f4 m show ?thesis by (simp add: number_of_text_def hex_text_def digit_val_hex)
  next
    case 3
    then have "n div 256 mod 16 = n div 256" using b2 by simp
    with 3 b2 f3 f4 m show ?thesis by (simp add: number_of_text_def hex_text_def digit_val_hex)
  next
    case 4
    with f1 f2 f3 f4 m show ?thesis by (simp add: number_of_text_def hex_text_def digit_val_hex)
  qed
qed

lemma hex_text_in:
  assumes "\<And>d. d < 16 \<Longrightarrow> hex_char d \<in> S" and n: "n < 65536"
  shows "set (hex_text n) \<subseteq> S"
proof -
  have m: "n mod 16 < 16" "n div 16 mod 16 < 16" "n div 256 mod 16 < 16" "n div 4096 mod 16 < 16"
    by simp_all
  have b1: "n < 256 \<Longrightarrow> n div 16 < 16" and b2: "n < 4096 \<Longrightarrow> n div 256 < 16" by simp_all
  show ?thesis
    using m[THEN assms(1)] assms(1)[of n] b1[THEN assms(1)] b2[THEN assms(1)]
    by (simp add: hex_text_def)
qed

lemma hex_text_digits: "n < 65536 \<Longrightarrow> set (hex_text n) \<subseteq> set ''0123456789abcdef''"
  by (rule hex_text_in[OF hex_char_set])

lemma hex_text_nonempty: "hex_text n \<noteq> []"
  by (simp add: hex_text_def)

lemma unat16_bound: "unat (w :: 16 word) < 65536"
  using unsigned_less[of w, where ?'a = nat] by simp

lemma unat8_bound: "unat (w :: 8 word) < 256"
  using unsigned_less[of w, where ?'a = nat] by simp

lemma hex_group_eq: "hex_group w = hex_group v \<longleftrightarrow> w = v"
  unfolding hex_group_def
  by (metis number_of_hex_text unat16_bound word_unat_eq_iff)

lemma hex_group_chars: "set (hex_group w) \<subseteq> set ''0123456789abcdef''"
  unfolding hex_group_def by (rule hex_text_digits[OF unat16_bound])

lemma hex_group_no_colon: "CHR '':'' \<notin> set (hex_group w)"
  using hex_group_chars[of w] by auto

lemma hex_group_no_dot: "CHR ''.'' \<notin> set (hex_group w)"
  using hex_group_chars[of w] by auto

lemma hex_group_hd: "\<exists>x xs. hex_group w = x # xs \<and> x \<noteq> CHR '':''"
  using hex_group_no_colon[of w] hex_text_nonempty[of "unat w"]
  by (cases "hex_group w") (auto simp: hex_group_def)

lemma zero_run_append: "zero_run pre b l \<Longrightarrow> zero_run (pre @ xs) b l"
  by (auto simp: zero_run_def nth_append)

lemma zero_run_extend:
  "zero_run pre cb cl \<Longrightarrow> cb + cl = length pre \<Longrightarrow> zero_run (pre @ [0]) cb (Suc cl)"
  by (auto simp: zero_run_def nth_append less_Suc_eq)

lemma zero_run_start: "zero_run (pre @ [0]) (length pre) (Suc 0)"
  by (simp add: zero_run_def)

lemma scan_runs_zero_run:
  assumes "scan_runs ws (length pre) cur best = Some (b, l)"
    and "\<And>cb cl. cur = Some (cb, cl) \<Longrightarrow> cb + cl = length pre \<and> zero_run pre cb cl"
    and "\<And>bb bl. best = Some (bb, bl) \<Longrightarrow> zero_run pre bb bl"
  shows "zero_run (pre @ ws) b l"
  using assms
proof (induction ws arbitrary: pre cur best)
  case Nil
  then show ?case
    by (auto simp: longer_run_def split: option.splits prod.splits if_splits)
next
  case (Cons w ws)
  have app: "pre @ w # ws = (pre @ [w]) @ ws" by simp
  show ?case
  proof (cases "w = 0")
    case True
    let ?cur = "case cur of None \<Rightarrow> Some (length pre, 1) | Some (cb, cl) \<Rightarrow> Some (cb, Suc cl)"
    have s: "scan_runs ws (length (pre @ [w])) ?cur best = Some (b, l)"
      using Cons.prems(1) True by simp
    have c: "\<And>cb cl. ?cur = Some (cb, cl) \<Longrightarrow>
        cb + cl = length (pre @ [w]) \<and> zero_run (pre @ [w]) cb cl"
      using Cons.prems(2) True zero_run_extend[of pre] zero_run_start[of pre]
      by (auto split: option.splits)
    have b: "\<And>bb bl. best = Some (bb, bl) \<Longrightarrow> zero_run (pre @ [w]) bb bl"
      using Cons.prems(3) zero_run_append by blast
    show ?thesis unfolding app by (rule Cons.IH[OF s c b])
  next
    case False
    have s: "scan_runs ws (length (pre @ [w])) None (longer_run cur best) = Some (b, l)"
      using Cons.prems(1) False by simp
    have b: "\<And>bb bl. longer_run cur best = Some (bb, bl) \<Longrightarrow> zero_run (pre @ [w]) bb bl"
      using Cons.prems(2,3) zero_run_append[where xs = "[w]"]
      by (auto simp: longer_run_def split: option.splits prod.splits if_splits)
    show ?thesis unfolding app by (rule Cons.IH[OF s _ b]) simp
  qed
qed

lemma best_run_zero_run:
  assumes "best_run ws = Some (b, l)"
  shows "zero_run ws b l \<and> 2 \<le> l"
proof -
  from assms have s: "scan_runs ws (length ([] :: 16 word list)) None None = Some (b, l)" and l: "2 \<le> l"
    by (auto simp: best_run_def split: option.splits prod.splits if_splits)
  from scan_runs_zero_run[OF s] l show ?thesis by simp
qed


lemma hex_group_nonempty: "hex_group w \<noteq> []" "[] \<noteq> hex_group w"
  using hex_text_nonempty[of "unat w"] by (auto simp: hex_group_def)

lemma join_colon_Cons:
  "join_colon (x # xs) = x @ (if xs = [] then [] else CHR '':'' # join_colon xs)"
  by (cases xs) simp_all

lemma groups_text_head:
  "\<exists>h r. groups_text (g0 # g1 # gs) = h @ CHR '':'' # r \<and> ((h = [] \<and> g0 = 0) \<or> h = hex_group g0)"
proof (cases "best_run (g0 # g1 # gs)")
  case None
  then have "groups_text (g0 # g1 # gs) = hex_group g0 @ CHR '':'' # join_colon (map hex_group (g1 # gs))"
    by (simp add: groups_text_def)
  then show ?thesis by blast
next
  case (Some r)
  obtain b l where r: "r = (b, l)" by (cases r)
  from best_run_zero_run[of "g0 # g1 # gs" b l] Some r
  have z: "zero_run (g0 # g1 # gs) b l" and l: "2 \<le> l" by simp_all
  show ?thesis
  proof (cases b)
    case 0
    from z l 0 have g0: "g0 = 0" by (auto simp: zero_run_def dest: spec[of _ 0])
    from Some r 0 have "\<exists>t. groups_text (g0 # g1 # gs) = [] @ CHR '':'' # t"
      by (simp add: groups_text_def)
    with g0 show ?thesis by blast
  next
    case (Suc b')
    with Some r have "\<exists>t. groups_text (g0 # g1 # gs) = hex_group g0 @ CHR '':'' # t"
      by (simp add: groups_text_def join_colon_Cons)
    then show ?thesis by blast
  qed
qed

lemma groups_text_no_dot_prefix:
  assumes "CHR '':'' \<notin> set p" "CHR ''.'' \<in> set p"
  shows "\<not> prefix p (groups_text (g0 # g1 # gs))"
proof
  assume p: "prefix p (groups_text (g0 # g1 # gs))"
  obtain h r where t: "groups_text (g0 # g1 # gs) = h @ CHR '':'' # r"
    and h: "(h = [] \<and> g0 = 0) \<or> h = hex_group g0"
    using groups_text_head by blast
  from p t assms(1) have "prefix p h" using prefix_before_sep by metis
  then have "set p \<subseteq> set h" by (rule set_mono_prefix)
  with assms(2) have "CHR ''.'' \<in> set h" by blast
  with h hex_group_no_dot show False by auto
qed

lemma groups_text_fe80:
  "prefix ''fe80:'' (groups_text (g0 # g1 # gs)) \<longleftrightarrow> g0 = 0xFE80"
proof -
  obtain h r where t: "groups_text (g0 # g1 # gs) = h @ CHR '':'' # r"
    and h: "(h = [] \<and> g0 = 0) \<or> h = hex_group g0"
    using groups_text_head by blast
  have f: "''fe80'' = hex_group 0xFE80"
    by (simp add: hex_group_def hex_text_def hex_char_def)
  have nh: "CHR '':'' \<notin> set h" using h hex_group_no_colon by auto
  have "prefix (''fe80'' @ CHR '':'' # []) (h @ CHR '':'' # r) \<longleftrightarrow> h = ''fe80'' \<and> prefix [] r"
    by (rule sep_prefix[OF nh]) simp
  then have "prefix ''fe80:'' (groups_text (g0 # g1 # gs)) \<longleftrightarrow> h = ''fe80''"
    using t by simp
  also have "\<dots> \<longleftrightarrow> g0 = 0xFE80"
    using h unfolding f by (auto simp: hex_group_eq hex_group_nonempty)
  finally show ?thesis .
qed


lemma hex_group_colon_neq: "hex_group a @ CHR '':'' # t \<noteq> hex_group v"
proof
  assume "hex_group a @ CHR '':'' # t = hex_group v"
  then have "CHR '':'' \<in> set (hex_group v)" by (metis in_set_conv_decomp)
  with hex_group_no_colon show False by blast
qed

lemma dotted_has_dot: "CHR ''.'' \<in> set (dotted a b c d)"
  by (simp add: dotted_def)

lemma groups_text_loopback:
  "groups_text [g0, g1, g2, g3, g4, g5, g6, g7] = ''::1'' \<longleftrightarrow>
     g0 = 0 \<and> g1 = 0 \<and> g2 = 0 \<and> g3 = 0 \<and> g4 = 0 \<and> g5 = 0 \<and> g6 = 0 \<and> g7 = 1"
  (is "?T = _ \<longleftrightarrow> ?R")
proof
  assume ?R
  then show "?T = ''::1''"
    by (simp add: groups_text_def best_run_def longer_run_def hex_group_def hex_text_def hex_char_def)
next
  assume eq: "?T = ''::1''"
  obtain x xs where hx: "hex_group g0 = x # xs" "x \<noteq> CHR '':''" using hex_group_hd by blast
  have one: "''1'' = hex_group 1" by (simp add: hex_group_def hex_text_def hex_char_def)
  show ?R
  proof (cases "best_run [g0, g1, g2, g3, g4, g5, g6, g7]")
    case None
    with eq hx show ?thesis by (simp add: groups_text_def)
  next
    case (Some r)
    obtain b l where r: "r = (b, l)" by (cases r)
    from best_run_zero_run[of _ b l] Some r
    have z: "zero_run [g0, g1, g2, g3, g4, g5, g6, g7] b l" and l: "2 \<le> l" by simp_all
    show ?thesis
    proof (cases b)
      case (Suc b')
      with Some r eq hx show ?thesis by (simp add: groups_text_def join_colon_Cons)
    next
      case 0
      from z 0 have l8: "l \<le> 8" by (simp add: zero_run_def)
      show ?thesis
      proof (cases "l = 6 \<or> (l = 5 \<and> g5 = 0xFFFF)")
        case True
        with Some r 0 eq show ?thesis
          using dotted_has_dot[of "unat g6 div 256" "unat g6 mod 256" "unat g7 div 256" "unat g7 mod 256"]
          by (auto simp: groups_text_def split: if_splits)
      next
        case False
        with Some r 0 eq
        have j: "join_colon (map hex_group (drop l [g0, g1, g2, g3, g4, g5, g6, g7])) = hex_group 1"
          unfolding one[symmetric] by (auto simp: groups_text_def)
        from l l8 consider "l = 2" | "l = 3" | "l = 4" | "l = 5" | "l = 6" | "l = 7" | "l = 8"
          by linarith
        then have "l = 7 \<and> g7 = 1"
          using j
          by cases (auto simp: hex_group_nonempty hex_group_eq hex_group_colon_neq)
        then have l7: "l = 7" and g7: "g7 = 1" by simp_all
        from z 0 l7 have "\<forall>j<7. [g0, g1, g2, g3, g4, g5, g6, g7] ! j = 0"
          by (simp add: zero_run_def)
        then have "g0 = 0 \<and> g1 = 0 \<and> g2 = 0 \<and> g3 = 0 \<and> g4 = 0 \<and> g5 = 0 \<and> g6 = 0"
          by (simp add: eval_nat_numeral All_less_Suc)
        with g7 show ?thesis by simp
      qed
    qed
  qed
qed


lemma isPrivate_groups_text:
  "isPrivate (groups_text [g0, g1, g2, g3, g4, g5, g6, g7]) \<longleftrightarrow>
     (g0 = 0 \<and> g1 = 0 \<and> g2 = 0 \<and> g3 = 0 \<and> g4 = 0 \<and> g5 = 0 \<and> g6 = 0 \<and> g7 = 1) \<or>
     g0 = 0xFE80"
proof -
  let ?t = "groups_text [g0, g1, g2, g3, g4, g5, g6, g7]"
  have n10: "\<not> prefix ''10.'' ?t" and n192: "\<not> prefix ''192.168.'' ?t"
    and n169: "\<not> prefix ''169.254.'' ?t" and n172: "\<not> prefix ''172.'' ?t"
    and n127: "\<not> prefix ''127.0.0.1'' ?t"
    by (rule groups_text_no_dot_prefix; simp)+
  from n172 have r: "\<not> re_172 ?t" using re_172_prefix by blast
  from n127 have e: "?t \<noteq> ''127.0.0.1''" by auto
  show ?thesis
    unfolding isPrivate_def startsWith_def groups_text_fe80 groups_text_loopback
    using n10 n192 n169 r e by blast
qed

lemma isPrivate_ip_text: "isPrivate (ip_text a) \<longleftrightarrow> denylisted_fe80_16 a"
proof (cases a)
  case (IPv4 a b c d)
  show ?thesis
    unfolding IPv4
    by (simp add: isPrivate_dotted unat8_bound word_unat_eq_iff word_le_nat_alt)
next
  case (IPv6 g0 g1 g2 g3 g4 g5 g6 g7)
  show ?thesis unfolding IPv6 by (simp add: isPrivate_groups_text)
qed

lemma denylisted_fe80_16_spec: "denylisted_fe80_16 a \<Longrightarrow> spec_denylisted a"
  by (cases a) auto

lemma check_addrs_ip_text:
  assumes "\<And>a. isIP (ip_text a) \<noteq> 0"
  shows "check_addrs isIP (map ip_text addrs) =
     (if \<exists>a\<in>set addrs. denylisted_fe80_16 a then Inl (Error ''private ip blocked'') else Inr ())"
  using assms by (induction addrs) (auto simp: isPrivate_ip_text)

lemma family_by_separator_text: "family_by_separator (ip_text a) \<noteq> 0"
proof (cases a)
  case (IPv4 a b c d)
  then show ?thesis by (simp add: family_by_separator_def dotted_has_dot)
next
  case (IPv6 g0 g1 g2 g3 g4 g5 g6 g7)
  obtain h r where "groups_text [g0, g1, g2, g3, g4, g5, g6, g7] = h @ CHR '':'' # r"
    using groups_text_head by blast
  with IPv6 show ?thesis by (simp add: family_by_separator_def)
qed

lemma spec_denylisted_beyond_fe80_16:
  "spec_denylisted a \<and> \<not> denylisted_fe80_16 a \<longleftrightarrow>
     (\<exists>g0 g1 g2 g3 g4 g5 g6 g7. a = IPv6 g0 g1 g2 g3 g4 g5 g6 g7 \<and> 0xFE80 < g0 \<and> g0 \<le> 0xFEBF)"
  by (cases a) auto

text \<open>
  C1 (the code departs from the claim). The claim: with the deny-private-IPs flag on, the guard fails whenever a resolved
  address lies in 10.0.0.0/8, 172.16.0.0/12, 192.168.0.0/16, is 127.0.0.1, lies in
  169.254.0.0/16, is \<^verbatim>\<open>::1\<close> or lies in fe80::/10, whatever else was resolved, and succeeds
  when no resolved address does. The guard's comment names the ranges it means (``RFC1918,
  loopback, link-local'') and the IPv4 ranges are tested exactly, but link-local IPv6 is
  tested by the text prefix \<^verbatim>\<open>fe80:\<close>, which covers fe80::/16 only: the addresses of
  fe80::/10 whose first group is \<^verbatim>\<open>fe81\<close> to \<^verbatim>\<open>febf\<close> (\<open>spec_denylisted_beyond_fe80_16\<close>)
  are let through. Proved here, for a host that the resolver answers with the addresses
  \<open>addrs\<close>, reported in their canonical text: the guard fails when some address lies in
  one of the IPv4 ranges, is \<^verbatim>\<open>::1\<close> or has first group \<^verbatim>\<open>fe80\<close>, and it succeeds in
  every other case, so also when \<open>addrs\<close> holds an address of fe80::/10 outside fe80::/16
  and nothing the guard tests for, where the claim has it fail.
\<close>

theorem validateResolvablePublic_link_local_hole:
  assumes "\<And>a. isIP (ip_text a) \<noteq> 0"
    and "lookup host = Inr (map ip_text addrs)"
  shows "((\<exists>a\<in>set addrs. denylisted_fe80_16 a) \<longrightarrow>
            validateResolvablePublic True lookup isIP host = Inl (Error ''private ip blocked'')) \<and>
         ((\<forall>a\<in>set addrs. \<not> denylisted_fe80_16 a) \<longrightarrow>
            validateResolvablePublic True lookup isIP host = Inr ())"
  using assms(2)
  by (auto simp: validateResolvablePublic_def check_addrs_ip_text[of isIP, OF assms(1)])

text \<open>
  The host \<^verbatim>\<open>linklocal.example\<close> resolves to \<^verbatim>\<open>fe90::1\<close>, an address of fe80::/10, and
  passes the guard; \<^verbatim>\<open>mixed.example\<close>, with one public and one private address, fails;
  \<^verbatim>\<open>a.com\<close>, with public addresses only, passes.
\<close>

theorem validateResolvablePublic_link_local_hole_witness:
  "example_dns ''linklocal.example'' = Inr (map ip_text [IPv6 0xFE90 0 0 0 0 0 0 1]) \<and>
   spec_denylisted (IPv6 0xFE90 0 0 0 0 0 0 1) \<and>
   validateResolvablePublic True example_dns family_by_separator ''linklocal.example'' = Inr () \<and>
   validateResolvablePublic True example_dns family_by_separator ''mixed.example'' =
     Inl (Error ''private ip blocked'') \<and>
   validateResolvablePublic True example_dns family_by_separator ''a.com'' = Inr ()"
  using validateResolvablePublic_link_local_hole[of family_by_separator example_dns
      "''linklocal.example''" "[IPv6 0xFE90 0 0 0 0 0 0 1]", OF family_by_separator_text]
    validateResolvablePublic_link_local_hole[of family_by_separator example_dns "''mixed.example''"
      "[IPv4 93 184 216 34, IPv4 192 168 1 7]", OF family_by_separator_text]
    validateResolvablePublic_link_local_hole[of family_by_separator example_dns "''a.com''"
      "[IPv4 93 184 216 34, IPv6 0x2606 0x2800 0x220 1 0x248 0x1893 0x25c8 0x1946]",
      OF family_by_separator_text]
  by (simp add: example_dns_def)

text \<open>
  The same run traced on the text: the address is reported as \<^verbatim>\<open>fe90::1\<close>, which
  \<^verbatim>\<open>net.isIP\<close> classifies as IPv6 and which none of the seven tests matches.
\<close>

lemma validateResolvablePublic_fe90_text:
  "ip_text (IPv6 0xFE90 0 0 0 0 0 0 1) = ''fe90::1'' \<and>
   example_dns ''linklocal.example'' = Inr [''fe90::1''] \<and>
   family_by_separator ''fe90::1'' = 6 \<and>
   \<not> isPrivate ''fe90::1'' \<and>
   validateResolvablePublic True example_dns family_by_separator ''linklocal.example'' = Inr ()"
proof -
  have t: "ip_text (IPv6 0xFE90 0 0 0 0 0 0 1) = ''fe90::1''"
    by (simp add: groups_text_def best_run_def longer_run_def hex_group_def hex_text_def hex_char_def)
  have d: "example_dns ''linklocal.example'' = Inr [''fe90::1'']"
    unfolding t[symmetric] by (simp add: example_dns_def)
  have f: "family_by_separator ''fe90::1'' = 6" by (simp add: family_by_separator_def)
  have p: "\<not> isPrivate ''fe90::1''" by (simp add: isPrivate_def startsWith_def)
  have "validateResolvablePublic True example_dns family_by_separator ''linklocal.example'' = Inr ()"
    by (simp add: validateResolvablePublic_def d f p)
  with t d f p show ?thesis by simp
qed

text \<open>
  The hypothesis on \<open>lookup\<close> above is that of a host name. For a host that is itself an
  IP address \<^verbatim>\<open>dns.lookup\<close> does not ask the resolver and hands the host back as
  written, and the guard compares that text: the loopback address is refused when
  written \<^verbatim>\<open>::1\<close> and let through when written in full. (The endpoint does not reach
  this case: the host it passes on comes from \<^verbatim>\<open>new URL\<close>, which puts an IPv6 address
  in brackets.)
\<close>

lemma validateResolvablePublic_address_as_written:
  "validateResolvablePublic True (\<lambda>h. Inr [h]) family_by_separator ''::1'' =
     Inl (Error ''private ip blocked'') \<and>
   validateResolvablePublic True (\<lambda>h. Inr [h]) family_by_separator ''0:0:0:0:0:0:0:1'' = Inr ()"
  by (simp add: validateResolvablePublic_def family_by_separator_def isPrivate_def startsWith_def)


section \<open>Properties of target extraction and of the endpoint\<close>



text \<open>
  C5. With the secret unset or empty every request to the render endpoint is answered
  401, whatever its header (a matching empty header included); with a non-empty secret
  \<open>s\<close> a request gets past authentication (is answered anything but 401) if and only if
  its \<^verbatim>\<open>X-Render-Secret\<close> header is \<open>s\<close>.
\<close>

theorem render_handler_auth:
  "((v = None \<or> v = Some []) \<longrightarrow>
      status (fst (render_handler (cfg\<lparr>SECRET := SECRET_of_env v\<rparr>) parseURL lookup isIP att req st)) = 401) \<and>
   (s \<noteq> [] \<longrightarrow>
      (status (fst (render_handler (cfg\<lparr>SECRET := SECRET_of_env (Some s)\<rparr>) parseURL lookup isIP att req st)) \<noteq> 401
        \<longleftrightarrow> x_render_secret req = Some s))"
  by (auto simp: render_handler_def SECRET_of_env_def Let_def
      split: option.splits sum.splits prod.splits)


section \<open>Properties of the cache and of the render\<close>

lemma cache_get_cache_set:
  assumes "\<not> stale ttl now t"
  shows "cache_get ttl now k (cache_set mx t k v c) = (Some v, cache_set mx t k v c)"
proof -
  have f: "filter (\<lambda>e. fst e \<noteq> k) (take n (filter (\<lambda>e. fst e \<noteq> k) c)) = take n (filter (\<lambda>e. fst e \<noteq> k) c)" for n
    by (rule filter_True) (auto dest: in_set_takeD)
  show ?thesis
  proof (cases "mx \<noteq> 0 \<and> mx < Suc (length (filter (\<lambda>e. fst e \<noteq> k) c))")
    case True
    then obtain n where n: "mx = Suc n" by (cases mx) auto
    with True assms f[of n] show ?thesis
      by (simp add: cache_get_def cache_set_def)
  next
    case False
    with assms show ?thesis
      by (auto simp: cache_get_def cache_set_def)
  qed
qed

lemma cache_get_empty_value:
  assumes "find (\<lambda>e. fst e = k) c = Some (k, [], t)"
  shows "\<not> truthy (fst (cache_get ttl now k c))"
  using assms by (simp add: cache_get_def truthy_def)

lemma find_cache_set: "find (\<lambda>e. fst e = k) (cache_set mx t k v c) = Some (k, v, t)"
proof (cases "mx \<noteq> 0 \<and> mx < Suc (length (filter (\<lambda>e. fst e \<noteq> k) c))")
  case True
  then obtain n where "mx = Suc n" by (cases mx) auto
  with True show ?thesis by (simp add: cache_set_def)
next
  case False
  then show ?thesis by (auto simp: cache_set_def)
qed

lemma try_body_success:
  assumes "try_body cfg parseURL att u st = (Inr h, st')"
  shows "content att = Inr h \<and>
         st' = st\<lparr>log := log st @ [EvGoto u, EvWaitForSelector, EvEvaluate, EvWaitForFunction,
                                  EvEvaluate, EvEvaluate, EvContent],
                  cache := cache_set (MAX_CACHE_ITEMS cfg) (t_set att) u h (cache st)\<rparr>"
  using assms
  by (auto simp: try_body_def and_then_def call_def call_catch_def origin_of_def cache_store_def
      split: sum.splits option.splits)

lemma try_body_navigations:
  "navigations u (snd (try_body cfg parseURL att u st)) = Suc (navigations u st)"
  by (auto simp: try_body_def and_then_def call_def call_catch_def origin_of_def cache_store_def
      navigations_def split: sum.splits option.splits)

lemma try_body_goto_fails:
  "goto att = Inl e \<Longrightarrow> try_body cfg parseURL att u st = (Inl e, st\<lparr>log := log st @ [EvGoto u]\<rparr>)"
  by (simp add: try_body_def and_then_def call_def)


lemma renderUrl_hit:
  assumes "cache_get (CACHE_TTL_MS cfg) (t_get att) u (cache st) = (Some h, c)" "h \<noteq> []"
  shows "renderUrl cfg parseURL att u st = (Inr h, st\<lparr>cache := c\<rparr>)"
  using assms by (simp add: renderUrl_def truthy_def)

lemma renderUrl_miss:
  assumes "\<not> truthy (fst (cache_get (CACHE_TTL_MS cfg) (t_get att) u (cache st)))"
  shows "renderUrl cfg parseURL att u st =
     (and_then (getBrowser att) (\<lambda>_.
      and_then (call EvNewPage (newPage att)) (\<lambda>_.
      and_then (call EvSetUserAgent (setUserAgent att)) (\<lambda>_.
      and_then (call EvSetRequestInterception (setRequestInterception att)) (\<lambda>_.
      finally_do (try_body cfg parseURL att u) (call_catch EvClose (close att)))))))
       (st\<lparr>cache := snd (cache_get (CACHE_TTL_MS cfg) (t_get att) u (cache st))\<rparr>)"
  using assms
  by (cases "cache_get (CACHE_TTL_MS cfg) (t_get att) u (cache st)") (simp add: renderUrl_def)

lemma renderUrl_result_truthy:
  assumes "renderUrl cfg parseURL att u st = (Inr [], st1)"
  shows "\<not> truthy (fst (cache_get (CACHE_TTL_MS cfg) (t_get att) u (cache st)))"
proof
  assume t: "truthy (fst (cache_get (CACHE_TTL_MS cfg) (t_get att) u (cache st)))"
  then obtain h where "fst (cache_get (CACHE_TTL_MS cfg) (t_get att) u (cache st)) = Some h" "h \<noteq> []"
    by (auto simp: truthy_def split: option.splits)
  with t assms show False by (auto simp: renderUrl_def split: prod.splits)
qed

lemma renderUrl_miss_success:
  assumes miss: "\<not> truthy (fst (cache_get (CACHE_TTL_MS cfg) (t_get att) u (cache st)))"
    and ok: "renderUrl cfg parseURL att u st = (Inr h, st1)"
  shows "content att = Inr h"
    and "cache st1 = cache_set (MAX_CACHE_ITEMS cfg) (t_set att) u h
           (snd (cache_get (CACHE_TTL_MS cfg) (t_get att) u (cache st)))"
    and "browserPromise st1 = Some (Inr ())"
    and "navigations u st1 = Suc (navigations u st)"
proof -
  let ?st0 = "st\<lparr>cache := snd (cache_get (CACHE_TTL_MS cfg) (t_get att) u (cache st))\<rparr>"
  from ok[unfolded renderUrl_miss[OF miss]]
  obtain sa where g: "getBrowser att ?st0 = (Inr (), sa)"
    and r: "finally_do (try_body cfg parseURL att u) (call_catch EvClose (close att))
              (sa\<lparr>log := log sa @ [EvNewPage, EvSetUserAgent, EvSetRequestInterception]\<rparr>) = (Inr h, st1)"
    by (auto simp: and_then_def call_def split: sum.splits prod.splits)
  from g have bp: "browserPromise sa = Some (Inr ())" and ca: "cache sa = cache ?st0"
    and na: "navigations u sa = navigations u st"
    by (auto simp: getBrowser_def navigations_def split: option.splits)
  let ?sb = "sa\<lparr>log := log sa @ [EvNewPage, EvSetUserAgent, EvSetRequestInterception]\<rparr>"
  from r obtain sc where t: "try_body cfg parseURL att u ?sb = (Inr h, sc)"
    and f: "st1 = snd (call_catch EvClose (close att) sc)"
    by (auto simp: finally_do_def split: prod.splits)
  from try_body_success[OF t] have c: "content att = Inr h"
    and sc: "sc = ?sb\<lparr>log := log ?sb @ [EvGoto u, EvWaitForSelector, EvEvaluate, EvWaitForFunction,
                                  EvEvaluate, EvEvaluate, EvContent],
                  cache := cache_set (MAX_CACHE_ITEMS cfg) (t_set att) u h (cache ?sb)\<rparr>"
    by simp_all
  show "content att = Inr h" by (rule c)
  show "cache st1 = cache_set (MAX_CACHE_ITEMS cfg) (t_set att) u h
           (snd (cache_get (CACHE_TTL_MS cfg) (t_get att) u (cache st)))"
    using f sc ca by (simp add: call_catch_def)
  show "browserPromise st1 = Some (Inr ())"
    using f sc bp by (simp add: call_catch_def)
  show "navigations u st1 = Suc (navigations u st)"
    using f sc na by (simp add: call_catch_def navigations_def)
qed

text \<open>
  C7 (amended). The claim: two successive renders of one target within the TTL window
  return the same HTML and navigate once. Proved here, for a first render that misses the
  cache, returns a non-empty HTML \<open>h\<close> and stores it at \<open>t_set att1\<close>: a second render
  that reads the cache no later than TTL after that returns \<open>h\<close> and leaves the whole
  server state as it was (no page, no navigation), and the first render navigated exactly
  once.
\<close>

theorem renderUrl_second_render_from_cache:
  assumes "\<not> truthy (fst (cache_get (CACHE_TTL_MS cfg) (t_get att1) u (cache st)))"
    and "renderUrl cfg parseURL att1 u st = (Inr h, st1)"
    and "h \<noteq> []"
    and "t_get att2 \<le> t_set att1 + CACHE_TTL_MS cfg"
  shows "renderUrl cfg parseURL att2 u st1 = (Inr h, st1) \<and>
         navigations u st1 = Suc (navigations u st)"
proof -
  from renderUrl_miss_success[OF assms(1,2)]
  have c: "cache st1 = cache_set (MAX_CACHE_ITEMS cfg) (t_set att1) u h
           (snd (cache_get (CACHE_TTL_MS cfg) (t_get att1) u (cache st)))"
    and n: "navigations u st1 = Suc (navigations u st)" by simp_all
  from assms(4) have ns: "\<not> stale (CACHE_TTL_MS cfg) (t_get att2) (t_set att1)"
    by (simp add: stale_def)
  have "cache_get (CACHE_TTL_MS cfg) (t_get att2) u (cache st1) = (Some h, cache st1)"
    unfolding c by (rule cache_get_cache_set[OF ns])
  from renderUrl_hit[OF this assms(3)] n show ?thesis by simp
qed


lemmas render_defs =
  and_then_def call_def call_catch_def finally_do_def getBrowser_def try_body_def
  origin_of_def cache_store_def truthy_def cache_get_def cache_set_def stale_def

lemma smooth_first_render:
  "renderUrl example_config example_URL (smooth_attempt t h) ''https://a.com/p'' fresh_server =
     (Inr h,
      \<lparr>cache = [(''https://a.com/p'', h, t + 1500)], browserPromise = Some (Inr ()),
       log = [EvLaunch, EvNewPage, EvSetUserAgent, EvSetRequestInterception,
              EvGoto ''https://a.com/p'', EvWaitForSelector, EvEvaluate, EvWaitForFunction,
              EvEvaluate, EvEvaluate, EvContent, EvClose]\<rparr>)"
  by (simp add: renderUrl_def render_defs example_config_def example_URL_def smooth_attempt_def
      fresh_server_def)

text \<open>
  A first render at time 0 stores \<^verbatim>\<open><p>first</p>\<close> at 1500; a render at 2000 returns it
  from the cache although the page would now serialise differently.
\<close>

theorem renderUrl_second_render_from_cache_witness:
  "renderUrl example_config example_URL (smooth_attempt 2000 ''<p>later</p>'') ''https://a.com/p''
     \<lparr>cache = [(''https://a.com/p'', ''<p>first</p>'', 1500)], browserPromise = Some (Inr ()),
      log = [EvLaunch, EvNewPage, EvSetUserAgent, EvSetRequestInterception,
             EvGoto ''https://a.com/p'', EvWaitForSelector, EvEvaluate, EvWaitForFunction,
             EvEvaluate, EvEvaluate, EvContent, EvClose]\<rparr>
   = (Inr ''<p>first</p>'',
      \<lparr>cache = [(''https://a.com/p'', ''<p>first</p>'', 1500)], browserPromise = Some (Inr ()),
       log = [EvLaunch, EvNewPage, EvSetUserAgent, EvSetRequestInterception,
              EvGoto ''https://a.com/p'', EvWaitForSelector, EvEvaluate, EvWaitForFunction,
              EvEvaluate, EvEvaluate, EvContent, EvClose]\<rparr>)"
  using renderUrl_second_render_from_cache[of example_config "smooth_attempt 0 ''<p>first</p>''"
      "''https://a.com/p''" fresh_server example_URL "''<p>first</p>''" _
      "smooth_attempt 2000 ''<p>later</p>''", OF _ smooth_first_render]
  by (simp add: truthy_def cache_get_def fresh_server_def smooth_attempt_def example_config_def)

text \<open>
  The claim as stated fails for a page that serialises to the empty string: the empty
  string is stored, the lookup 500 ms later finds it falsy, and the second render
  navigates again.
\<close>

theorem renderUrl_empty_html_renders_twice:
  "fst (renderUrl example_config example_URL (smooth_attempt 0 []) ''https://a.com/p'' fresh_server)
     = Inr [] \<and>
   t_get (smooth_attempt 2000 []) \<le> t_set (smooth_attempt 0 []) + CACHE_TTL_MS example_config \<and>
   fst (renderUrl example_config example_URL (smooth_attempt 2000 []) ''https://a.com/p''
         (snd (renderUrl example_config example_URL (smooth_attempt 0 []) ''https://a.com/p''
                 fresh_server)))
     = Inr [] \<and>
   navigations ''https://a.com/p''
     (snd (renderUrl example_config example_URL (smooth_attempt 2000 []) ''https://a.com/p''
         (snd (renderUrl example_config example_URL (smooth_attempt 0 []) ''https://a.com/p''
                 fresh_server))))
     = 2"
proof -
  have second:
    "renderUrl example_config example_URL (smooth_attempt 2000 []) ''https://a.com/p''
       \<lparr>cache = [(''https://a.com/p'', [], 1500)], browserPromise = Some (Inr ()),
        log = [EvLaunch, EvNewPage, EvSetUserAgent, EvSetRequestInterception,
               EvGoto ''https://a.com/p'', EvWaitForSelector, EvEvaluate, EvWaitForFunction,
               EvEvaluate, EvEvaluate, EvContent, EvClose]\<rparr>
     = (Inr [],
        \<lparr>cache = [(''https://a.com/p'', [], 3500)], browserPromise = Some (Inr ()),
         log = [EvLaunch, EvNewPage, EvSetUserAgent, EvSetRequestInterception,
                EvGoto ''https://a.com/p'', EvWaitForSelector, EvEvaluate, EvWaitForFunction,
                EvEvaluate, EvEvaluate, EvContent, EvClose,
                EvNewPage, EvSetUserAgent, EvSetRequestInterception,
                EvGoto ''https://a.com/p'', EvWaitForSelector, EvEvaluate, EvWaitForFunction,
                EvEvaluate, EvEvaluate, EvContent, EvClose]\<rparr>)"
    by (simp add: renderUrl_def render_defs example_config_def example_URL_def smooth_attempt_def)
  show ?thesis
    using smooth_first_render[of 0 "[]"] second
    by (simp add: navigations_def smooth_attempt_def example_config_def)
qed


lemma renderUrl_navigates_after_setup:
  assumes miss: "\<not> truthy (fst (cache_get (CACHE_TTL_MS cfg) (t_get att) u (cache st)))"
    and bp: "browserPromise st = Some (Inr ()) \<or> (browserPromise st = None \<and> launch att = Inr ())"
    and page: "newPage att = Inr ()" "setUserAgent att = Inr ()" "setRequestInterception att = Inr ()"
  shows "\<exists>s. renderUrl cfg parseURL att u st =
           (fst (try_body cfg parseURL att u s),
            (snd (try_body cfg parseURL att u s))\<lparr>log := log (snd (try_body cfg parseURL att u s)) @ [EvClose]\<rparr>) \<and>
           navigations u s = navigations u st"
proof -
  let ?c = "snd (cache_get (CACHE_TTL_MS cfg) (t_get att) u (cache st))"
  from bp show ?thesis
  proof
    assume b: "browserPromise st = Some (Inr ())"
    let ?s = "st\<lparr>cache := ?c, log := log st @ [EvNewPage, EvSetUserAgent, EvSetRequestInterception]\<rparr>"
    have "renderUrl cfg parseURL att u st =
           (fst (try_body cfg parseURL att u ?s),
            (snd (try_body cfg parseURL att u ?s))\<lparr>log := log (snd (try_body cfg parseURL att u ?s)) @ [EvClose]\<rparr>)"
      unfolding renderUrl_miss[OF miss] using b page
      by (simp add: and_then_def call_def call_catch_def finally_do_def getBrowser_def
          split: prod.splits)
    moreover have "navigations u ?s = navigations u st" by (simp add: navigations_def)
    ultimately show ?thesis by blast
  next
    assume b: "browserPromise st = None \<and> launch att = Inr ()"
    let ?s = "st\<lparr>cache := ?c, browserPromise := Some (Inr ()),
                 log := log st @ [EvLaunch, EvNewPage, EvSetUserAgent, EvSetRequestInterception]\<rparr>"
    have "renderUrl cfg parseURL att u st =
           (fst (try_body cfg parseURL att u ?s),
            (snd (try_body cfg parseURL att u ?s))\<lparr>log := log (snd (try_body cfg parseURL att u ?s)) @ [EvClose]\<rparr>)"
      unfolding renderUrl_miss[OF miss] using b page
      by (simp add: and_then_def call_def call_catch_def finally_do_def getBrowser_def
          split: prod.splits)
    moreover have "navigations u ?s = navigations u st" by (simp add: navigations_def)
    ultimately show ?thesis by blast
  qed
qed

text \<open>
  C10. After a render that returned, and so stored, the empty string for a target, the
  cache holds that entry, the lookup of any later render of the target is falsy whatever
  the clock says, and such a render (its page set up) navigates once more.
\<close>

theorem renderUrl_empty_html_is_miss:
  assumes "renderUrl cfg parseURL att1 u st = (Inr [], st1)"
    and "newPage att2 = Inr ()" "setUserAgent att2 = Inr ()" "setRequestInterception att2 = Inr ()"
  shows "find (\<lambda>e. fst e = u) (cache st1) = Some (u, [], t_set att1) \<and>
         \<not> truthy (fst (cache_get (CACHE_TTL_MS cfg) (t_get att2) u (cache st1))) \<and>
         navigations u (snd (renderUrl cfg parseURL att2 u st1)) = Suc (navigations u st1)"
proof -
  have miss1: "\<not> truthy (fst (cache_get (CACHE_TTL_MS cfg) (t_get att1) u (cache st)))"
    by (rule renderUrl_result_truthy[OF assms(1)])
  from renderUrl_miss_success[OF miss1 assms(1)]
  have c: "cache st1 = cache_set (MAX_CACHE_ITEMS cfg) (t_set att1) u []
           (snd (cache_get (CACHE_TTL_MS cfg) (t_get att1) u (cache st)))"
    and bp: "browserPromise st1 = Some (Inr ())" by simp_all
  have f: "find (\<lambda>e. fst e = u) (cache st1) = Some (u, [], t_set att1)"
    unfolding c by (rule find_cache_set)
  have miss2: "\<not> truthy (fst (cache_get (CACHE_TTL_MS cfg) (t_get att2) u (cache st1)))"
    by (rule cache_get_empty_value[OF f])
  from renderUrl_navigates_after_setup[OF miss2 _ assms(2,3,4), of parseURL] bp
  obtain s where r: "renderUrl cfg parseURL att2 u st1 =
           (fst (try_body cfg parseURL att2 u s),
            (snd (try_body cfg parseURL att2 u s))\<lparr>log := log (snd (try_body cfg parseURL att2 u s)) @ [EvClose]\<rparr>)"
    and n: "navigations u s = navigations u st1" by auto
  have "navigations u (snd (renderUrl cfg parseURL att2 u st1)) = Suc (navigations u s)"
    unfolding r using try_body_navigations[of u cfg parseURL att2 s]
    by (simp add: navigations_def)
  with f miss2 n show ?thesis by simp
qed

text \<open>
  The empty page rendered at times 0 and 2000: the entry of 1500 is there, and there are
  two navigations.
\<close>

theorem renderUrl_empty_html_is_miss_witness:
  "find (\<lambda>e. fst e = ''https://a.com/p'')
     (cache (snd (renderUrl example_config example_URL (smooth_attempt 0 []) ''https://a.com/p''
                    fresh_server)))
     = Some (''https://a.com/p'', [], 1500) \<and>
   navigations ''https://a.com/p''
     (snd (renderUrl example_config example_URL (smooth_attempt 2000 []) ''https://a.com/p''
         (snd (renderUrl example_config example_URL (smooth_attempt 0 []) ''https://a.com/p''
                 fresh_server))))
     = 2"
proof -
  have first: "renderUrl example_config example_URL (smooth_attempt 0 []) ''https://a.com/p''
      fresh_server =
     (Inr [],
      \<lparr>cache = [(''https://a.com/p'', [], 1500)], browserPromise = Some (Inr ()),
       log = [EvLaunch, EvNewPage, EvSetUserAgent, EvSetRequestInterception,
              EvGoto ''https://a.com/p'', EvWaitForSelector, EvEvaluate, EvWaitForFunction,
              EvEvaluate, EvEvaluate, EvContent, EvClose]\<rparr>)"
    using smooth_first_render[of 0 "[]"] by simp
  have page: "newPage (smooth_attempt 2000 []) = Inr ()" "setUserAgent (smooth_attempt 2000 []) = Inr ()"
    "setRequestInterception (smooth_attempt 2000 []) = Inr ()"
    and ts: "t_set (smooth_attempt 0 []) = 1500"
    by (simp_all add: smooth_attempt_def)
  from renderUrl_empty_html_is_miss[OF first page] first ts
  show ?thesis by (simp add: navigations_def)
qed


lemma call_catch_unfold: "call_catch ev r = (\<lambda>st. (Inr (), st\<lparr>log := log st @ [ev]\<rparr>))"
  by (rule ext) (simp add: call_catch_def)

lemma getBrowser_waits:
  "getBrowser (att\<lparr>waitForSelector := r1, waitForFunction := r2\<rparr>) = getBrowser att"
  by (rule ext) (simp add: getBrowser_def split: option.splits)

lemma renderUrl_wait_outcomes_ignored:
  "renderUrl cfg parseURL (att\<lparr>waitForSelector := r1, waitForFunction := r2\<rparr>) u st =
   renderUrl cfg parseURL att u st"
  by (simp add: renderUrl_def try_body_def call_catch_unfold getBrowser_waits split: prod.splits)

lemma try_body_all_ok:
  assumes "goto att = Inr ()" "nudge att = Inr ()" "parseURL u = Some x" "injectBase att = Inr ()"
    "strip att = Inr ()" "content att = Inr h"
  shows "fst (try_body cfg parseURL att u st) = Inr h"
  using assms
  by (simp add: try_body_def and_then_def call_def call_catch_def origin_of_def cache_store_def)

text \<open>
  C9. The outcomes of the two waits (the framework-root marker and the readiness
  predicate) have no influence on a render: with any outcomes in their place the result
  and the final state are the same. In a render that reaches navigation, a failed
  navigation is the error of the render; and with both waits timed out and the other
  page operations succeeding, the render returns the serialised page.
\<close>

theorem renderUrl_timeouts:
  "renderUrl cfg parseURL (att\<lparr>waitForSelector := r1, waitForFunction := r2\<rparr>) u st =
     renderUrl cfg parseURL att u st \<and>
   (\<not> truthy (fst (cache_get (CACHE_TTL_MS cfg) (t_get att) u (cache st))) \<and>
    (browserPromise st = Some (Inr ()) \<or> (browserPromise st = None \<and> launch att = Inr ())) \<and>
    newPage att = Inr () \<and> setUserAgent att = Inr () \<and> setRequestInterception att = Inr () \<longrightarrow>
      (goto att = Inl e \<longrightarrow> fst (renderUrl cfg parseURL att u st) = Inl e) \<and>
      (goto att = Inr () \<and> waitForSelector att = Inl e1 \<and> nudge att = Inr () \<and>
       waitForFunction att = Inl e2 \<and> parseURL u = Some x \<and> injectBase att = Inr () \<and>
       strip att = Inr () \<and> content att = Inr h \<longrightarrow>
         fst (renderUrl cfg parseURL att u st) = Inr h))"
proof (intro conjI impI, goal_cases)
  case 1
  show ?case by (rule renderUrl_wait_outcomes_ignored)
next
  case 2
  then obtain s where "renderUrl cfg parseURL att u st =
           (fst (try_body cfg parseURL att u s),
            (snd (try_body cfg parseURL att u s))\<lparr>log := log (snd (try_body cfg parseURL att u s)) @ [EvClose]\<rparr>)"
    using renderUrl_navigates_after_setup[of cfg att u st parseURL] by blast
  with 2 show ?case by (simp add: try_body_goto_fails)
next
  case 3
  then obtain s where "renderUrl cfg parseURL att u st =
           (fst (try_body cfg parseURL att u s),
            (snd (try_body cfg parseURL att u s))\<lparr>log := log (snd (try_body cfg parseURL att u s)) @ [EvClose]\<rparr>)"
    using renderUrl_navigates_after_setup[of cfg att u st parseURL] by blast
  with 3 show ?case by (simp add: try_body_all_ok)
qed

text \<open>
  A navigation timeout is the result of the render; timeouts of both waits still give the
  page's HTML.
\<close>

theorem renderUrl_timeouts_witness:
  "fst (renderUrl example_config example_URL
          ((smooth_attempt 0 ''<p>x</p>'')\<lparr>goto := Inl (Error ''Navigation timeout of 20000 ms exceeded'')\<rparr>)
          ''https://a.com/p'' fresh_server)
     = Inl (Error ''Navigation timeout of 20000 ms exceeded'') \<and>
   fst (renderUrl example_config example_URL
          ((smooth_attempt 0 ''<p>x</p>'')
             \<lparr>waitForSelector := Inl (Error ''Waiting for selector failed: Waiting failed: 8000ms exceeded''),
              waitForFunction := Inl (Error ''Waiting failed: 12000ms exceeded'')\<rparr>)
          ''https://a.com/p'' fresh_server)
     = Inr ''<p>x</p>''"
proof -
  let ?nav = "(smooth_attempt 0 ''<p>x</p>'')\<lparr>goto := Inl (Error ''Navigation timeout of 20000 ms exceeded'')\<rparr>"
  let ?wait = "(smooth_attempt 0 ''<p>x</p>'')
             \<lparr>waitForSelector := Inl (Error ''Waiting for selector failed: Waiting failed: 8000ms exceeded''),
              waitForFunction := Inl (Error ''Waiting failed: 12000ms exceeded'')\<rparr>"
  have miss: "\<not> truthy (fst (cache_get (CACHE_TTL_MS example_config) t ''https://a.com/p'' (cache fresh_server)))" for t
    by (simp add: truthy_def cache_get_def fresh_server_def)
  have u: "example_URL ''https://a.com/p'' =
      Some \<lparr>url_protocol = ''https:'', url_host = ''a.com'', url_origin = ''https://a.com''\<rparr>"
    by (simp add: example_URL_def)
  have a: "fst (renderUrl example_config example_URL ?nav ''https://a.com/p'' fresh_server)
     = Inl (Error ''Navigation timeout of 20000 ms exceeded'')"
    using renderUrl_timeouts[where cfg = example_config and parseURL = example_URL and att = ?nav
        and u = "''https://a.com/p''" and st = fresh_server
        and e = "Error ''Navigation timeout of 20000 ms exceeded''"] miss
    by (simp add: smooth_attempt_def fresh_server_def)
  have b: "fst (renderUrl example_config example_URL ?wait ''https://a.com/p'' fresh_server)
     = Inr ''<p>x</p>''"
    using renderUrl_timeouts[where cfg = example_config and parseURL = example_URL and att = ?wait
        and u = "''https://a.com/p''" and st = fresh_server
        and ?e1.0 = "Error ''Waiting for selector failed: Waiting failed: 8000ms exceeded''"
        and ?e2.0 = "Error ''Waiting failed: 12000ms exceeded''" and h = "''<p>x</p>''"] miss u
    by (simp add: smooth_attempt_def fresh_server_def)
  from a b show ?thesis by simp
qed


lemma getBrowser_close: "getBrowser (att\<lparr>close := r\<rparr>) = getBrowser att"
  by (rule ext) (simp add: getBrowser_def split: option.splits)

lemma renderUrl_close_outcome_ignored:
  "renderUrl cfg parseURL (att\<lparr>close := r\<rparr>) u st = renderUrl cfg parseURL att u st"
  by (simp add: renderUrl_def try_body_def call_catch_unfold getBrowser_close split: prod.splits)

lemma renderUrl_closes_after_setup:
  assumes "\<not> truthy (fst (cache_get (CACHE_TTL_MS cfg) (t_get att) u (cache st)))"
    and "browserPromise st = Some (Inr ()) \<or> (browserPromise st = None \<and> launch att = Inr ())"
    and "newPage att = Inr ()" "setUserAgent att = Inr ()" "setRequestInterception att = Inr ()"
  shows "last (log (snd (renderUrl cfg parseURL att u st))) = EvClose"
  using renderUrl_navigates_after_setup[OF assms, of parseURL] by auto

text \<open>
  C4 (the code departs from the claim). The claim: a page that was created is closed on
  every exit path of the attempt, and a failing close is suppressed. That holds from the
  navigation on (\<open>renderUrl_closes_after_setup\<close>, \<open>renderUrl_close_outcome_ignored\<close>), but
  \<^verbatim>\<open>setUserAgent\<close> and \<^verbatim>\<open>setRequestInterception\<close> are awaited after the page is created
  and before the \<^verbatim>\<open>try\<close> block: when either rejects, the render throws with the page
  created and never closed.
\<close>

theorem renderUrl_setup_failure_leaves_page_open:
  "renderUrl example_config example_URL
     ((smooth_attempt 0 ''<p>x</p>'')\<lparr>setUserAgent := Inl (Error ''Protocol error: Session closed'')\<rparr>)
     ''https://a.com/p'' fresh_server
   = (Inl (Error ''Protocol error: Session closed''),
      \<lparr>cache = [], browserPromise = Some (Inr ()),
       log = [EvLaunch, EvNewPage, EvSetUserAgent]\<rparr>) \<and>
   renderUrl example_config example_URL
     ((smooth_attempt 0 ''<p>x</p>'')
        \<lparr>setRequestInterception := Inl (Error ''Protocol error: Session closed'')\<rparr>)
     ''https://a.com/p'' fresh_server
   = (Inl (Error ''Protocol error: Session closed''),
      \<lparr>cache = [], browserPromise = Some (Inr ()),
       log = [EvLaunch, EvNewPage, EvSetUserAgent, EvSetRequestInterception]\<rparr>)"
  by (simp add: renderUrl_def render_defs example_config_def smooth_attempt_def fresh_server_def)

text \<open>
  C6 (the code departs from the claim). The claim: validation runs in the order
  authentication, then the target must parse as an absolute http or https URL (else 400),
  then the host must pass the allow-list (else 403), then the public-IP check, whose
  failure, like a later render failure, is answered 500. The order is as claimed, and so
  is every answer but one: the allow-list check is made inside the \<^verbatim>\<open>try\<close> block, and
  with a wildcard pattern configured it throws instead of returning (C2, C3), so a host
  the allow-list was meant to reject is answered 500 and not 403. Proved here, every
  request falling under exactly one case: a request that fails authentication is answered
  401; an authenticated request whose target does not parse as an absolute http or https
  URL is answered 400; with a target that parses, a failure \<open>e\<close> of \<open>hostAllowed\<close> is
  answered 500 with the body made from \<open>e\<close>, and a host for which \<open>hostAllowed\<close> returns
  \<open>false\<close> is answered 403, both before any DNS lookup; with an allowed host, a failure
  \<open>e\<close> of the public-IP check is answered 500 with the body made from \<open>e\<close>, as is a
  failure of the render that follows a passed check, and a render that succeeds is answered
  200 with its HTML. All answers before the render leave the server state untouched, so
  no page was created.
\<close>

theorem render_handler_validation_order:
  "(SECRET cfg = [] \<or> x_render_secret req \<noteq> Some (SECRET cfg) \<longrightarrow>
      status (fst (render_handler cfg parseURL lookup isIP att req st)) = 401 \<and>
      snd (render_handler cfg parseURL lookup isIP att req st) = st) \<and>
   (SECRET cfg \<noteq> [] \<and> x_render_secret req = Some (SECRET cfg) \<longrightarrow>
      (\<not> isAbsoluteHttpUrl parseURL (extractTargetUrl req) \<longrightarrow>
         status (fst (render_handler cfg parseURL lookup isIP att req st)) = 400 \<and>
         snd (render_handler cfg parseURL lookup isIP att req st) = st) \<and>
      (isAbsoluteHttpUrl parseURL (extractTargetUrl req) \<longrightarrow>
         (\<exists>y. parseURL (extractTargetUrl req) = Some y)) \<and>
      (isAbsoluteHttpUrl parseURL (extractTargetUrl req) \<and>
       parseURL (extractTargetUrl req) = Some x \<longrightarrow>
         (hostAllowed (ALLOW_HOSTS cfg) (url_host x) = Inl e \<longrightarrow>
            render_handler cfg parseURL lookup isIP att req st =
              (\<lparr>status = 500, body = RenderError e, max_age = None\<rparr>, st)) \<and>
         (hostAllowed (ALLOW_HOSTS cfg) (url_host x) = Inr False \<longrightarrow>
            status (fst (render_handler cfg parseURL lookup isIP att req st)) = 403 \<and>
            snd (render_handler cfg parseURL lookup isIP att req st) = st) \<and>
         (hostAllowed (ALLOW_HOSTS cfg) (url_host x) = Inr True \<longrightarrow>
            (validateResolvablePublic (DENY_PRIVATE_IPS cfg) lookup isIP (url_host x) = Inl e \<longrightarrow>
               render_handler cfg parseURL lookup isIP att req st =
                 (\<lparr>status = 500, body = RenderError e, max_age = None\<rparr>, st)) \<and>
            (validateResolvablePublic (DENY_PRIVATE_IPS cfg) lookup isIP (url_host x) = Inr () \<and>
             fst (renderUrl cfg parseURL att (extractTargetUrl req) st) = Inl e \<longrightarrow>
               fst (render_handler cfg parseURL lookup isIP att req st) =
                 \<lparr>status = 500, body = RenderError e, max_age = None\<rparr>) \<and>
            (validateResolvablePublic (DENY_PRIVATE_IPS cfg) lookup isIP (url_host x) = Inr () \<and>
             fst (renderUrl cfg parseURL att (extractTargetUrl req) st) = Inr html \<longrightarrow>
               fst (render_handler cfg parseURL lookup isIP att req st) =
                 \<lparr>status = 200, body = Html html,
                  max_age = Some (CACHE_TTL_MS cfg div 1000)\<rparr>))))"
  by (auto simp: render_handler_def isAbsoluteHttpUrl_def Let_def
      split: prod.splits sum.splits option.splits)

text \<open>
  With the allow-list \<^verbatim>\<open>*.example.com\<close>, the target \<^verbatim>\<open>https://evil.com/\<close> is answered
  500 with the \<^verbatim>\<open>SyntaxError\<close> of the pattern, where the claim answers 403. With the
  allow-list \<^verbatim>\<open>a.com,blocked.internal\<close>: the target \<^verbatim>\<open>https://blocked.internal/\<close>, which
  resolves to 10.0.0.5 only, is answered 500 with ``private ip blocked'' and nothing is
  rendered; a host outside the allow-list 403; an \<^verbatim>\<open>ftp\<close> target 400; a wrong secret
  401.
\<close>

theorem render_handler_validation_order_witness:
  "render_handler (example_config\<lparr>ALLOW_HOSTS := ALLOW_HOSTS_of_env (Some ''*.example.com'')\<rparr>)
     example_URL example_dns family_by_separator (smooth_attempt 0 ''<p>x</p>'')
     \<lparr>x_render_secret = Some ''s1'', query_url = QString ''https://evil.com/'',
      path = ''/render''\<rparr> fresh_server
   = (\<lparr>status = 500, body = RenderError SyntaxError, max_age = None\<rparr>, fresh_server) \<and>
   render_handler example_config example_URL example_dns family_by_separator
     (smooth_attempt 0 ''<p>x</p>'')
     \<lparr>x_render_secret = Some ''s1'', query_url = QString ''https://blocked.internal/'',
      path = ''/render''\<rparr> fresh_server
   = (\<lparr>status = 500, body = RenderError (Error ''private ip blocked''), max_age = None\<rparr>,
      fresh_server) \<and>
   status (fst (render_handler example_config example_URL example_dns family_by_separator
     (smooth_attempt 0 ''<p>x</p>'')
     \<lparr>x_render_secret = Some ''s1'', query_url = QString ''https://evil.com/'',
      path = ''/render''\<rparr> fresh_server)) = 403 \<and>
   status (fst (render_handler example_config example_URL example_dns family_by_separator
     (smooth_attempt 0 ''<p>x</p>'')
     \<lparr>x_render_secret = Some ''s1'', query_url = QString ''ftp://a.com'',
      path = ''/render''\<rparr> fresh_server)) = 400 \<and>
   status (fst (render_handler example_config example_URL example_dns family_by_separator
     (smooth_attempt 0 ''<p>x</p>'')
     \<lparr>x_render_secret = Some ''wrong'', query_url = QString ''ftp://a.com'',
      path = ''/render''\<rparr> fresh_server)) = 401"
proof -
  let ?wild = "example_config\<lparr>ALLOW_HOSTS := ALLOW_HOSTS_of_env (Some ''*.example.com'')\<rparr>"
  let ?blocked = "\<lparr>x_render_secret = Some ''s1'', query_url = QString ''https://blocked.internal/'',
      path = ''/render''\<rparr>"
  let ?evil = "\<lparr>x_render_secret = Some ''s1'', query_url = QString ''https://evil.com/'',
      path = ''/render''\<rparr>"
  let ?ftp = "\<lparr>x_render_secret = Some ''s1'', query_url = QString ''ftp://a.com'',
      path = ''/render''\<rparr>"
  let ?wrong = "\<lparr>x_render_secret = Some ''wrong'', query_url = QString ''ftp://a.com'',
      path = ''/render''\<rparr>"
  have allow_blocked: "hostAllowed (ALLOW_HOSTS example_config) ''blocked.internal'' = Inr True"
    and allow_evil: "hostAllowed (ALLOW_HOSTS example_config) ''evil.com'' = Inr False"
    by (simp_all add: example_config_def hostAllowed_def wildcardMatch_def toLowerCase_def
        lower_char_def)
  have wild_evil: "hostAllowed (ALLOW_HOSTS ?wild) ''evil.com'' = Inl SyntaxError"
    by (simp add: ALLOW_HOSTS_of_env_examples hostAllowed_def wildcardMatch_leading_star)
  have dns: "validateResolvablePublic (DENY_PRIVATE_IPS example_config) example_dns
      family_by_separator ''blocked.internal'' = Inl (Error ''private ip blocked'')"
    by (simp add: example_config_def validateResolvablePublic_def example_dns_def dotted_def
        dec_text_def digit_char_def family_by_separator_def isPrivate_def startsWith_def)
  have w: "render_handler ?wild example_URL example_dns family_by_separator
     (smooth_attempt 0 ''<p>x</p>'') ?evil fresh_server
   = (\<lparr>status = 500, body = RenderError SyntaxError, max_age = None\<rparr>, fresh_server)"
    using render_handler_validation_order[where cfg = ?wild and parseURL = example_URL
        and lookup = example_dns and isIP = family_by_separator
        and att = "smooth_attempt 0 ''<p>x</p>''" and req = ?evil and st = fresh_server
        and x = "\<lparr>url_protocol = ''https:'', url_host = ''evil.com'',
                 url_origin = ''https://evil.com''\<rparr>"
        and e = SyntaxError] wild_evil
    by (simp add: example_config_def extractTargetUrl_def isAbsoluteHttpUrl_def example_URL_def)
  have a: "render_handler example_config example_URL example_dns family_by_separator
     (smooth_attempt 0 ''<p>x</p>'') ?blocked fresh_server
   = (\<lparr>status = 500, body = RenderError (Error ''private ip blocked''), max_age = None\<rparr>,
      fresh_server)"
    using render_handler_validation_order[where cfg = example_config and parseURL = example_URL
        and lookup = example_dns and isIP = family_by_separator
        and att = "smooth_attempt 0 ''<p>x</p>''" and req = ?blocked and st = fresh_server
        and x = "\<lparr>url_protocol = ''https:'', url_host = ''blocked.internal'',
                 url_origin = ''https://blocked.internal''\<rparr>"
        and e = "Error ''private ip blocked''"] allow_blocked dns
    by (simp add: example_config_def extractTargetUrl_def isAbsoluteHttpUrl_def example_URL_def)
  have b: "status (fst (render_handler example_config example_URL example_dns family_by_separator
     (smooth_attempt 0 ''<p>x</p>'') ?evil fresh_server)) = 403"
    using render_handler_validation_order[where cfg = example_config and parseURL = example_URL
        and lookup = example_dns and isIP = family_by_separator
        and att = "smooth_attempt 0 ''<p>x</p>''" and req = ?evil and st = fresh_server
        and x = "\<lparr>url_protocol = ''https:'', url_host = ''evil.com'',
                 url_origin = ''https://evil.com''\<rparr>"] allow_evil
    by (simp add: example_config_def extractTargetUrl_def isAbsoluteHttpUrl_def example_URL_def)
  have c: "status (fst (render_handler example_config example_URL example_dns family_by_separator
     (smooth_attempt 0 ''<p>x</p>'') ?ftp fresh_server)) = 400"
    using render_handler_validation_order[where cfg = example_config and parseURL = example_URL
        and lookup = example_dns and isIP = family_by_separator
        and att = "smooth_attempt 0 ''<p>x</p>''" and req = ?ftp and st = fresh_server]
    by (simp add: example_config_def extractTargetUrl_def isAbsoluteHttpUrl_def example_URL_def)
  have d: "status (fst (render_handler example_config example_URL example_dns family_by_separator
     (smooth_attempt 0 ''<p>x</p>'') ?wrong fresh_server)) = 401"
    using render_handler_validation_order[where cfg = example_config and parseURL = example_URL
        and lookup = example_dns and isIP = family_by_separator
        and att = "smooth_attempt 0 ''<p>x</p>''" and req = ?wrong and st = fresh_server]
    by (simp add: example_config_def)
  from w a b c d show ?thesis by simp
qed

text \<open>
  An empty secret with an empty header, and the secret \<^verbatim>\<open>s1\<close> with the header \<^verbatim>\<open>s2\<close>:
  both 401.
\<close>

theorem render_handler_auth_witness:
  "status (fst (render_handler (example_config\<lparr>SECRET := SECRET_of_env (Some [])\<rparr>) example_URL
      example_dns family_by_separator (smooth_attempt 0 ''<p>x</p>'')
      \<lparr>x_render_secret = Some [], query_url = QString ''https://a.com/p'', path = ''/render''\<rparr>
      fresh_server)) = 401 \<and>
   status (fst (render_handler (example_config\<lparr>SECRET := SECRET_of_env (Some ''s1'')\<rparr>) example_URL
      example_dns family_by_separator (smooth_attempt 0 ''<p>x</p>'')
      \<lparr>x_render_secret = Some ''s2'', query_url = QString ''https://a.com/p'', path = ''/render''\<rparr>
      fresh_server)) = 401"
  using render_handler_auth[where v = "Some []" and cfg = example_config and parseURL = example_URL
      and lookup = example_dns and isIP = family_by_separator
      and att = "smooth_attempt 0 ''<p>x</p>''"
      and req = "\<lparr>x_render_secret = Some [], query_url = QString ''https://a.com/p'', path = ''/render''\<rparr>"
      and st = fresh_server]
    render_handler_auth[where s = "''s1''" and cfg = example_config and parseURL = example_URL
      and lookup = example_dns and isIP = family_by_separator
      and att = "smooth_attempt 0 ''<p>x</p>''"
      and req = "\<lparr>x_render_secret = Some ''s2'', query_url = QString ''https://a.com/p'', path = ''/render''\<rparr>"
      and st = fresh_server]
  by simp

end
